theory Spec2Isabelle
  imports Complex_Main "HOL-Library.Sublist" "HOL-Library.AList"
begin

section \<open>Python values used by conceptnet.py\<close>

subsection \<open>Strings\<close>

text \<open>
  A Python \<open>str\<close> is modelled as a \<open>string\<close> whose characters are the code points
  U+0000 to U+00FF. On this repertoire \<open>str.isspace\<close>, the regular expression class
  \<open>\s\<close> and \<open>str.lower\<close> are tabulated exactly as CPython 3 computes them.
  \<open>str.upper\<close> of one character is exact as well, except for U+00B5 and U+00FF, whose
  upper-case forms lie outside the repertoire: the model leaves these two unchanged.
\<close>

definition py_isspace :: "char \<Rightarrow> bool" where
  "py_isspace c = (let n = (of_char c :: nat) in
     (9 \<le> n \<and> n \<le> 13) \<or> (28 \<le> n \<and> n \<le> 32) \<or> n = 133 \<or> n = 160)"

definition lower_char :: "char \<Rightarrow> char" where
  "lower_char c = (let n = (of_char c :: nat) in
     if (65 \<le> n \<and> n \<le> 90) \<or> (192 \<le> n \<and> n \<le> 222 \<and> n \<noteq> 215)
     then char_of (n + 32) else c)"

definition py_lower :: "string \<Rightarrow> string" where
  "py_lower s = map lower_char s"

definition upper_char :: "char \<Rightarrow> string" where
  "upper_char c = (let n = (of_char c :: nat) in
     if (97 \<le> n \<and> n \<le> 122) \<or> (224 \<le> n \<and> n \<le> 254 \<and> n \<noteq> 247)
     then [char_of (n - 32)]
     else if n = 223 then ''SS'' else [c])"

definition py_lstrip :: "string \<Rightarrow> string" where
  "py_lstrip s = dropWhile py_isspace s"

definition py_rstrip :: "string \<Rightarrow> string" where
  "py_rstrip s = rev (dropWhile py_isspace (rev s))"

definition py_strip :: "string \<Rightarrow> string" where
  "py_strip s = py_rstrip (py_lstrip s)"

text \<open>\<open>s.replace(a, b)\<close> for one-character strings \<open>a\<close> and \<open>b\<close>.\<close>

definition py_replace :: "char \<Rightarrow> char \<Rightarrow> string \<Rightarrow> string" where
  "py_replace a b s = map (\<lambda>c. if c = a then b else c) s"

definition py_startswith :: "string \<Rightarrow> string \<Rightarrow> bool" where
  "py_startswith s p = (take (length p) s = p)"

definition py_endswith :: "string \<Rightarrow> string \<Rightarrow> bool" where
  "py_endswith s p = (length p \<le> length s \<and> drop (length s - length p) s = p)"

text \<open>\<open>s.startswith(t)\<close> and \<open>s.endswith(t)\<close> for a tuple \<open>t\<close> of strings.\<close>

definition py_startswith_any :: "string \<Rightarrow> string list \<Rightarrow> bool" where
  "py_startswith_any s ps = list_ex (py_startswith s) ps"

definition py_endswith_any :: "string \<Rightarrow> string list \<Rightarrow> bool" where
  "py_endswith_any s ps = list_ex (py_endswith s) ps"

text \<open>\<open>re.sub(r"\s+", repl, s)\<close>: every maximal run of whitespace becomes \<open>repl\<close>.\<close>

function re_sub_ws :: "string \<Rightarrow> string \<Rightarrow> string" where
  "re_sub_ws repl [] = []"
| "re_sub_ws repl (c # cs) =
     (if py_isspace c then repl @ re_sub_ws repl (dropWhile py_isspace cs)
      else c # re_sub_ws repl cs)"
  by pat_completeness auto
termination
  by (relation "measure (\<lambda>(repl, s). length s)")
     (auto simp: le_imp_less_Suc length_dropWhile_le)

text \<open>The character class \<open>[a-z0-9_]\<close>.\<close>

definition ident_char :: "char \<Rightarrow> bool" where
  "ident_char c = (let n = (of_char c :: nat) in
     (97 \<le> n \<and> n \<le> 122) \<or> (48 \<le> n \<and> n \<le> 57) \<or> n = 95)"

text \<open>\<open>s.split("/")[-1]\<close>: what follows the last slash.\<close>

definition last_segment :: "string \<Rightarrow> string" where
  "last_segment s = rev (takeWhile (\<lambda>c. c \<noteq> CHR ''/'') (rev s))"

text \<open>\<open>str(n)\<close> for a Python \<open>int\<close>, as an f-string formats it.\<close>

definition digit_char :: "nat \<Rightarrow> char" where
  "digit_char d = char_of (48 + d)"

function str_nat :: "nat \<Rightarrow> string" where
  "str_nat n = (if n < 10 then [digit_char n] else str_nat (n div 10) @ [digit_char (n mod 10)])"
  by pat_completeness auto
termination
  by (relation "measure id") auto

declare str_nat.simps [simp del]

definition str_int :: "int \<Rightarrow> string" where
  "str_int i = (if i < 0 then CHR ''-'' # str_nat (nat (- i)) else str_nat (nat i))"

subsection \<open>Floats\<close>

text \<open>
  A Python \<open>float\<close> is modelled by the extended real it denotes, or NaN. The comparisons
  are IEEE 754: every comparison with NaN is false. Rounding is outside the model.
\<close>

datatype pyfloat = Fin real | PInf | NInf | NaN

fun f_lt :: "pyfloat \<Rightarrow> pyfloat \<Rightarrow> bool" where
  "f_lt (Fin a) (Fin b) = (a < b)"
| "f_lt (Fin a) PInf = True"
| "f_lt NInf (Fin b) = True"
| "f_lt NInf PInf = True"
| "f_lt _ _ = False"

definition f_gt :: "pyfloat \<Rightarrow> pyfloat \<Rightarrow> bool" where
  "f_gt a b = f_lt b a"

definition f_ge :: "pyfloat \<Rightarrow> pyfloat \<Rightarrow> bool" where
  "f_ge a b = (f_lt b a \<or> (a = b \<and> a \<noteq> NaN))"

subsection \<open>Decoded JSON\<close>

text \<open>
  What \<open>response.json()\<close> returns: \<open>None\<close>, \<open>bool\<close>, \<open>int\<close>, \<open>float\<close>, \<open>str\<close>,
  \<open>list\<close> and \<open>dict\<close> (the items in insertion order, keys distinct).
\<close>

datatype json =
    JNull
  | JBool bool
  | JInt int
  | JFloat pyfloat
  | JStr string
  | JArr "json list"
  | JObj "(string \<times> json) list"

datatype py_error =
    RequestException
  | JSONDecodeError
  | AttributeError
  | TypeError
  | IndexError

text \<open>
  Three conversions of the interpreter are parameters of the model: \<open>str(v)\<close> of a value
  that is not a \<open>str\<close>, \<open>float(s)\<close> of a \<open>str\<close> (\<open>None\<close> stands for \<open>ValueError\<close>), and
  \<open>float(n)\<close> of an \<open>int\<close> beyond \<open>2 ^ 53\<close> in magnitude, where the conversion rounds
  (\<open>None\<close> stands for \<open>OverflowError\<close>).
\<close>

record builtins =
  str_of :: "json \<Rightarrow> string"
  float_of_str :: "string \<Rightarrow> pyfloat option"
  float_of_bigint :: "int \<Rightarrow> pyfloat option"

definition py_str :: "builtins \<Rightarrow> json \<Rightarrow> string" where
  "py_str py v = (case v of JStr s \<Rightarrow> s | _ \<Rightarrow> str_of py v)"

text \<open>\<open>float(v)\<close>; \<open>None\<close> when it raises \<open>TypeError\<close>, \<open>ValueError\<close> or \<open>OverflowError\<close>.\<close>

definition py_float :: "builtins \<Rightarrow> json \<Rightarrow> pyfloat option" where
  "py_float py v =
     (case v of
        JNull \<Rightarrow> None
      | JBool b \<Rightarrow> Some (Fin (if b then 1 else 0))
      | JInt n \<Rightarrow> (if \<bar>n\<bar> \<le> 2 ^ 53 then Some (Fin (of_int n)) else float_of_bigint py n)
      | JFloat f \<Rightarrow> Some f
      | JStr s \<Rightarrow> float_of_str py s
      | JArr xs \<Rightarrow> None
      | JObj d \<Rightarrow> None)"

text \<open>Truth value testing, as \<open>if v\<close>, \<open>v or d\<close> and \<open>a and b\<close> apply it.\<close>

definition py_truthy :: "json \<Rightarrow> bool" where
  "py_truthy v =
     (case v of
        JNull \<Rightarrow> False
      | JBool b \<Rightarrow> b
      | JInt n \<Rightarrow> n \<noteq> 0
      | JFloat f \<Rightarrow> f \<noteq> Fin 0
      | JStr s \<Rightarrow> s \<noteq> []
      | JArr xs \<Rightarrow> xs \<noteq> []
      | JObj d \<Rightarrow> d \<noteq> [])"

text \<open>\<open>v.get(k, dflt)\<close>: only a \<open>dict\<close> has the method.\<close>

definition py_get :: "json \<Rightarrow> string \<Rightarrow> json \<Rightarrow> py_error + json" where
  "py_get v k dflt =
     (case v of
        JObj d \<Rightarrow> Inr (case map_of d k of Some x \<Rightarrow> x | None \<Rightarrow> dflt)
      | _ \<Rightarrow> Inl AttributeError)"

text \<open>\<open>for e in v\<close>: the elements a loop over \<open>v\<close> visits.\<close>

definition py_iter :: "json \<Rightarrow> py_error + json list" where
  "py_iter v =
     (case v of
        JArr xs \<Rightarrow> Inr xs
      | JObj d \<Rightarrow> Inr (map (\<lambda>kv. JStr (fst kv)) d)
      | JStr s \<Rightarrow> Inr (map (\<lambda>c. JStr [c]) s)
      | _ \<Rightarrow> Inl TypeError)"

text \<open>\<open>xs[:m]\<close>: a negative bound counts from the end.\<close>

definition py_slice_to :: "int \<Rightarrow> 'a list \<Rightarrow> 'a list" where
  "py_slice_to m xs = (if 0 \<le> m then take (nat m) xs else take (nat (int (length xs) + m)) xs)"

section \<open>The functions of conceptnet.py\<close>

definition CONCEPTNET_API :: string where
  "CONCEPTNET_API = ''https://api.conceptnet.io''"

definition DEFAULT_RELATIONS :: "string set" where
  "DEFAULT_RELATIONS =
     {''IsA'', ''PartOf'', ''HasA'',
      ''UsedFor'', ''CapableOf'', ''ReceivesAction'',
      ''AtLocation'', ''LocatedNear'', ''HasProperty''}"

text \<open>\<open>_norm\<close> (lines 14 to 18).\<close>

definition norm_concept :: "string \<Rightarrow> string" where
  "norm_concept s =
     (let s1 = py_lower (py_strip s);
          s2 = re_sub_ws ''_'' s1;
          s3 = filter ident_char s2
      in s3)"

text \<open>\<open>_to_en_uri\<close> (lines 20 to 21).\<close>

definition to_en_uri :: "string \<Rightarrow> string" where
  "to_en_uri concept = ''/c/en/'' @ norm_concept concept"

text \<open>\<open>_as_label\<close> (lines 23 to 30).\<close>

definition id_label :: "(string \<times> json) list \<Rightarrow> string" where
  "id_label d =
     (case map_of d ''@id'' of
        Some (JStr i) \<Rightarrow> py_strip (py_replace (CHR ''_'') (CHR '' '') (last_segment i))
      | _ \<Rightarrow> [])"

definition as_label :: "builtins \<Rightarrow> json \<Rightarrow> string" where
  "as_label py v =
     (case v of
        JObj d \<Rightarrow>
          (case map_of d ''label'' of
             Some l \<Rightarrow> if py_truthy l then py_strip (py_str py l) else id_label d
           | None \<Rightarrow> id_label d)
      | _ \<Rightarrow> [])"

text \<open>
  \<open>_weight\<close> (lines 32 to 37). The \<open>edge.get\<close> stands outside the \<open>try\<close>; every
  exception of \<open>float(w)\<close> is caught.
\<close>

definition weight :: "builtins \<Rightarrow> json \<Rightarrow> py_error + pyfloat" where
  "weight py edge =
     (case py_get edge ''weight'' (JFloat (Fin 0)) of
        Inl err \<Rightarrow> Inl err
      | Inr w \<Rightarrow> Inr (case py_float py w of Some f \<Rightarrow> f | None \<Rightarrow> Fin 0))"

text \<open>\<open>_choose_article\<close> (lines 39 to 45).\<close>

definition choose_article :: "string \<Rightarrow> string" where
  "choose_article phrase =
     (let w = py_lower (py_strip phrase) in
      case w of
        [] \<Rightarrow> ''a''
      | c # cs \<Rightarrow> if c \<in> set ''aeiou'' then ''an'' else ''a'')"

text \<open>\<open>_maybe_article\<close> (lines 47 to 58).\<close>

definition maybe_article :: "string \<Rightarrow> string" where
  "maybe_article noun =
     (let n = py_strip noun in
      if n = [] then n
      else
        let lower = py_lower n in
        if py_startswith_any lower
             [''a '', ''an '', ''the '', ''this '', ''that '', ''these '', ''those '']
        then n
        else if py_endswith lower ''s'' \<and> \<not> py_endswith_any lower [''ss'', ''us'']
        then n
        else choose_article n @ '' '' @ n)"

text \<open>\<open>REL_TEMPLATES\<close> (lines 60 to 70): the \<open>dict\<close> as its list of items.\<close>

definition REL_TEMPLATES :: "(string \<times> (string \<Rightarrow> string \<Rightarrow> string)) list" where
  "REL_TEMPLATES =
     [(''IsA'', \<lambda>s o'. maybe_article s @ '' is '' @
          (if \<not> py_startswith_any (py_lower o') [''a '', ''an '', ''the '']
           then maybe_article o' else o')),
      (''PartOf'', \<lambda>s o'. maybe_article s @ '' is part of '' @ maybe_article o'),
      (''HasA'', \<lambda>s o'. maybe_article s @ '' has '' @ maybe_article o'),
      (''UsedFor'', \<lambda>s o'. maybe_article s @ '' is used for '' @ o'),
      (''CapableOf'', \<lambda>s o'. maybe_article s @ '' can '' @ o'),
      (''ReceivesAction'', \<lambda>s o'. maybe_article s @ '' can be '' @ o'),
      (''AtLocation'', \<lambda>s o'. maybe_article s @ '' is often found in '' @ maybe_article o'),
      (''LocatedNear'', \<lambda>s o'. maybe_article s @ '' is often near '' @ maybe_article o'),
      (''HasProperty'', \<lambda>s o'. maybe_article s @ '' can be '' @ o')]"

text \<open>
  \<open>_edge_to_sentence\<close> (lines 72 to 82). \<open>sent[0]\<close> raises \<open>IndexError\<close> on an empty
  sentence.
\<close>

definition edge_to_sentence :: "string \<Rightarrow> string \<Rightarrow> string \<Rightarrow> py_error + string" where
  "edge_to_sentence start rel end' =
     (let start1 = py_strip (py_replace (CHR ''_'') (CHR '' '') start);
          end1 = py_strip (py_replace (CHR ''_'') (CHR '' '') end');
          sent = (case map_of REL_TEMPLATES rel of
                    Some template \<Rightarrow> template start1 end1
                  | None \<Rightarrow> maybe_article start1 @ '' '' @ rel @ '' '' @ end1);
          sent1 = py_strip (re_sub_ws '' '' sent)
      in case sent1 of
           [] \<Rightarrow> Inl IndexError
         | c # cs \<Rightarrow> Inr (upper_char c @ cs @ ''.''))"

subsection \<open>The top-level function\<close>

text \<open>
  The keyword arguments of \<open>get_conceptnet_facts_for_image\<close> (lines 84 to 92) and
  their defaults.
\<close>

record config =
  relations :: "string set option"
  per_object_limit :: int
  pair_limit :: int
  min_weight :: pyfloat
  max_facts :: int

definition default_config :: config where
  "default_config =
     \<lparr>relations = None, per_object_limit = 25, pair_limit = 25,
      min_weight = Fin 1, max_facts = 40\<rparr>"

text \<open>
  The remote service: what \<open>requests.get(url)\<close> returns, \<open>None\<close> when the request
  raises. A response holds what its \<open>.json()\<close> decodes, \<open>None\<close> when the body is not
  JSON.
\<close>

datatype response = Response "json option"

type_synonym remote = "string \<Rightarrow> response option"

definition get_json :: "remote \<Rightarrow> string \<Rightarrow> py_error + json" where
  "get_json http url =
     (case http url of
        None \<Rightarrow> Inl RequestException
      | Some (Response None) \<Rightarrow> Inl JSONDecodeError
      | Some (Response (Some data)) \<Rightarrow> Inr data)"

text \<open>Line 101: \<open>rels = relations or DEFAULT_RELATIONS\<close>.\<close>

definition rels_of :: "string set option \<Rightarrow> string set" where
  "rels_of r = (case r of None \<Rightarrow> DEFAULT_RELATIONS
                | Some S \<Rightarrow> if S = {} then DEFAULT_RELATIONS else S)"

text \<open>Lines 103 to 110: the objects, stripped, without case-insensitive repeats.\<close>

fun dedup_objects :: "string list \<Rightarrow> string set \<Rightarrow> string list \<Rightarrow> string list" where
  "dedup_objects [] seen objs = objs"
| "dedup_objects (ob # obs) seen objs =
     (let o2 = py_strip ob in
      if o2 \<noteq> [] \<and> py_lower o2 \<notin> seen
      then dedup_objects obs (insert (py_lower o2) seen) (objs @ [o2])
      else dedup_objects obs seen objs)"

text \<open>\<open>rel in rels\<close>: hashing a \<open>list\<close> or a \<open>dict\<close> raises \<open>TypeError\<close>.\<close>

definition in_rels :: "json \<Rightarrow> string set \<Rightarrow> py_error + bool" where
  "in_rels v rels =
     (case v of
        JStr s \<Rightarrow> Inr (s \<in> rels)
      | JArr xs \<Rightarrow> Inl TypeError
      | JObj d \<Rightarrow> Inl TypeError
      | _ \<Rightarrow> Inr False)"

text \<open>\<open>keep_edge\<close> (lines 112 to 114).\<close>

definition keep_edge :: "builtins \<Rightarrow> string set \<Rightarrow> pyfloat \<Rightarrow> json \<Rightarrow> py_error + bool" where
  "keep_edge py rels mw e =
     (case py_get e ''rel'' (JObj []) of
        Inl err \<Rightarrow> Inl err
      | Inr r \<Rightarrow>
          (case py_get r ''label'' JNull of
             Inl err \<Rightarrow> Inl err
           | Inr rel \<Rightarrow>
               (case in_rels rel rels of
                  Inl err \<Rightarrow> Inl err
                | Inr False \<Rightarrow> Inr False
                | Inr True \<Rightarrow>
                    (case weight py e of
                       Inl err \<Rightarrow> Inl err
                     | Inr w \<Rightarrow> Inr (f_ge w mw)))))"

text \<open>
  \<open>best\<close> (line 117): the \<open>dict\<close> as its list of items in insertion order. A store to
  a key already present replaces the value in place, a store to a new key appends.
\<close>

type_synonym fact_key = "string \<times> string \<times> string"

type_synonym best = "(fact_key \<times> pyfloat) list"

text \<open>
  \<open>add_edge_fact\<close> (lines 119 to 128). The keys of \<open>best\<close> are triples of \<open>str\<close>: the
  function is called on edges that \<open>keep_edge\<close> kept, whose relation label is a member of
  the string set \<open>rels\<close>. A truthy label that is not a \<open>str\<close> does not arise there; the
  model answers \<open>TypeError\<close>, which is what hashing the key raises for a \<open>list\<close> or a
  \<open>dict\<close>.
\<close>

definition add_edge_fact :: "builtins \<Rightarrow> json \<Rightarrow> best \<Rightarrow> py_error + best" where
  "add_edge_fact py e best =
     (case py_get e ''start'' (JObj []) of
        Inl err \<Rightarrow> Inl err
      | Inr sv \<Rightarrow>
     (case py_get e ''rel'' (JObj []) of
        Inl err \<Rightarrow> Inl err
      | Inr r \<Rightarrow>
     (case py_get r ''label'' (JStr []) of
        Inl err \<Rightarrow> Inl err
      | Inr rel \<Rightarrow>
     (case py_get e ''end'' (JObj []) of
        Inl err \<Rightarrow> Inl err
      | Inr ev \<Rightarrow>
          (let start = as_label py sv; end' = as_label py ev in
           if \<not> (start \<noteq> [] \<and> py_truthy rel \<and> end' \<noteq> []) then Inr best
           else
             (case rel of
                JStr rl \<Rightarrow>
                  (case weight py e of
                     Inl err \<Rightarrow> Inl err
                   | Inr w \<Rightarrow>
                       (let key = (start, rl, end') in
                        if f_gt w (case map_of best key of Some b \<Rightarrow> b | None \<Rightarrow> Fin (- 1))
                        then Inr (AList.update key w best)
                        else Inr best))
              | _ \<Rightarrow> Inl TypeError))))))"

text \<open>Lines 136 to 138 and 146 to 148: \<open>if keep_edge(e): add_edge_fact(e)\<close> for each edge.\<close>

fun scan_edges ::
  "builtins \<Rightarrow> string set \<Rightarrow> pyfloat \<Rightarrow> json list \<Rightarrow> best \<Rightarrow> py_error + best" where
  "scan_edges py rels mw [] best = Inr best"
| "scan_edges py rels mw (e # es) best =
     (case keep_edge py rels mw e of
        Inl err \<Rightarrow> Inl err
      | Inr False \<Rightarrow> scan_edges py rels mw es best
      | Inr True \<Rightarrow>
          (case add_edge_fact py e best of
             Inl err \<Rightarrow> Inl err
           | Inr best1 \<Rightarrow> scan_edges py rels mw es best1))"

text \<open>\<open>data.get("edges") or []\<close>, as the \<open>for\<close> loop walks it.\<close>

definition edges_of :: "json \<Rightarrow> py_error + json list" where
  "edges_of data =
     (case py_get data ''edges'' JNull of
        Inl err \<Rightarrow> Inl err
      | Inr v \<Rightarrow> if py_truthy v then py_iter v else Inr [])"

text \<open>
  Lines 131 to 138. The request of line 133 is only printed, but it is issued and it
  can raise.
\<close>

fun per_object_edges ::
  "builtins \<Rightarrow> remote \<Rightarrow> string set \<Rightarrow> pyfloat \<Rightarrow> int \<Rightarrow> string list \<Rightarrow> best
     \<Rightarrow> py_error + best" where
  "per_object_edges py http rels mw limit [] best = Inr best"
| "per_object_edges py http rels mw limit (obj # objs) best =
     (let uri = to_en_uri obj in
      case http (CONCEPTNET_API @ ''/query?start='' @ uri @ ''?limit='' @ str_int limit) of
        None \<Rightarrow> Inl RequestException
      | Some printed \<Rightarrow>
     (case get_json http (CONCEPTNET_API @ uri @ ''?limit='' @ str_int limit) of
        Inl err \<Rightarrow> Inl err
      | Inr data \<Rightarrow>
     (case edges_of data of
        Inl err \<Rightarrow> Inl err
      | Inr es \<Rightarrow>
     (case scan_edges py rels mw es best of
        Inl err \<Rightarrow> Inl err
      | Inr best1 \<Rightarrow> per_object_edges py http rels mw limit objs best1))))"

text \<open>\<open>itertools.combinations(objs, 2)\<close>.\<close>

fun combinations2 :: "'a list \<Rightarrow> ('a \<times> 'a) list" where
  "combinations2 [] = []"
| "combinations2 (x # xs) = map (Pair x) xs @ combinations2 xs"

text \<open>Lines 141 to 148.\<close>

fun pair_edges ::
  "builtins \<Rightarrow> remote \<Rightarrow> string set \<Rightarrow> pyfloat \<Rightarrow> int \<Rightarrow> (string \<times> string) list \<Rightarrow> best
     \<Rightarrow> py_error + best" where
  "pair_edges py http rels mw limit [] best = Inr best"
| "pair_edges py http rels mw limit ((a, b) # ps) best =
     (let a_uri = to_en_uri a; b_uri = to_en_uri b in
      case get_json http (CONCEPTNET_API @ ''/query?node='' @ a_uri @ ''&other='' @ b_uri
                           @ ''&limit='' @ str_int limit) of
        Inl err \<Rightarrow> Inl err
      | Inr data \<Rightarrow>
     (case edges_of data of
        Inl err \<Rightarrow> Inl err
      | Inr es \<Rightarrow>
     (case scan_edges py rels mw es best of
        Inl err \<Rightarrow> Inl err
      | Inr best1 \<Rightarrow> pair_edges py http rels mw limit ps best1)))"

text \<open>Lines 101 to 148: \<open>best\<close> when both loops are done.\<close>

definition collect_best ::
  "builtins \<Rightarrow> remote \<Rightarrow> string list \<Rightarrow> config \<Rightarrow> py_error + best" where
  "collect_best py http objects cfg =
     (let rels = rels_of (relations cfg);
          objs = dedup_objects objects {} []
      in case per_object_edges py http rels (min_weight cfg) (per_object_limit cfg) objs [] of
           Inl err \<Rightarrow> Inl err
         | Inr best1 \<Rightarrow>
             pair_edges py http rels (min_weight cfg) (pair_limit cfg) (combinations2 objs) best1)"

text \<open>
  \<open>sorted(items, key=lambda kv: kv[1], reverse=True)\<close>: a stable sort by descending
  weight, items of equal weight staying in their order.
\<close>

fun insert_desc :: "('a \<times> pyfloat) \<Rightarrow> ('a \<times> pyfloat) list \<Rightarrow> ('a \<times> pyfloat) list" where
  "insert_desc x [] = [x]"
| "insert_desc x (y # ys) =
     (if f_lt (snd x) (snd y) then y # insert_desc x ys else x # y # ys)"

definition sorted_desc :: "('a \<times> pyfloat) list \<Rightarrow> ('a \<times> pyfloat) list" where
  "sorted_desc xs = foldr insert_desc xs []"

text \<open>Line 151: \<open>ranked\<close>.\<close>

definition ranked_facts ::
  "builtins \<Rightarrow> remote \<Rightarrow> string list \<Rightarrow> config \<Rightarrow> py_error + best" where
  "ranked_facts py http objects cfg =
     (case collect_best py http objects cfg of
        Inl err \<Rightarrow> Inl err
      | Inr best \<Rightarrow> Inr (py_slice_to (max_facts cfg) (sorted_desc best)))"

text \<open>Line 152: the list comprehension stops at the first sentence that raises.\<close>

fun render_all :: "best \<Rightarrow> py_error + string list" where
  "render_all [] = Inr []"
| "render_all (((s, r, ob), w) # rest) =
     (case edge_to_sentence s r ob of
        Inl err \<Rightarrow> Inl err
      | Inr sent \<Rightarrow>
          (case render_all rest of
             Inl err \<Rightarrow> Inl err
           | Inr sents \<Rightarrow> Inr (sent # sents)))"

definition get_conceptnet_facts_for_image ::
  "builtins \<Rightarrow> remote \<Rightarrow> string list \<Rightarrow> config \<Rightarrow> py_error + string list" where
  "get_conceptnet_facts_for_image py http objects cfg =
     (case ranked_facts py http objects cfg of
        Inl err \<Rightarrow> Inl err
      | Inr ranked \<Rightarrow> render_all ranked)"

section \<open>Notions of the specification\<close>

text \<open>
  \<open>s.split()\<close> and \<open>sep.join(ws)\<close>: the maximal runs of characters that are not
  whitespace, and their concatenation with a separator. The normalizer does not call
  them; they say what "whitespace runs collapsed to single underscores" means.
\<close>

function py_split :: "string \<Rightarrow> string list" where
  "py_split s =
     (let t = dropWhile py_isspace s in
      if t = [] then []
      else takeWhile (\<lambda>c. \<not> py_isspace c) t # py_split (dropWhile (\<lambda>c. \<not> py_isspace c) t))"
  by pat_completeness auto
termination
proof (relation "measure length", goal_cases)
  case 1
  show ?case by simp
next
  case (2 s t)
  have "t \<noteq> []" using 2 by simp
  then obtain c cs where t: "t = c # cs" by (cases t) simp_all
  have "\<not> py_isspace (hd t)"
    using 2 hd_dropWhile [of py_isspace s] by simp
  then have "\<not> py_isspace c" by (simp add: t)
  then have "length (dropWhile (\<lambda>c. \<not> py_isspace c) t) \<le> length cs"
    by (simp add: t length_dropWhile_le)
  moreover have "length t \<le> length s"
    using 2 by (simp add: length_dropWhile_le)
  ultimately show ?case by (simp add: t)
qed

declare py_split.simps [simp del]

fun py_join :: "string \<Rightarrow> string list \<Rightarrow> string" where
  "py_join sep [] = []"
| "py_join sep [w] = w"
| "py_join sep (w # v # ws) = w @ sep @ py_join sep (v # ws)"

text \<open>
  The normalizer as the specification words it: the string lowercased, its words joined
  by single underscores, every character outside \<open>[a-z0-9_]\<close> removed.
\<close>

definition norm_spec :: "string \<Rightarrow> string" where
  "norm_spec s = filter ident_char (py_join ''_'' (py_split (py_lower s)))"

text \<open>
  An entirely invalid input: once lowercased, every character of it is outside
  \<open>[a-z0-9_]\<close>.
\<close>

definition entirely_invalid :: "string \<Rightarrow> bool" where
  "entirely_invalid s = (filter ident_char (py_lower s) = [])"

text \<open>
  The article heuristic as the specification words it: no article for an empty phrase,
  for a phrase that starts with a determiner word and for a phrase that ends in "s" but
  not in "ss" or "us"; otherwise "an" before a vowel letter and "a" before anything
  else. The phrase is the trimmed noun, its first word is what stands before the first
  whitespace, and the tests are made on the lowercased phrase.
\<close>

definition determiners :: "string list" where
  "determiners = [''a'', ''an'', ''the'', ''this'', ''that'', ''these'', ''those'']"

definition first_word :: "string \<Rightarrow> string" where
  "first_word p = takeWhile (\<lambda>c. \<not> py_isspace c) p"

definition starts_with_determiner_word :: "string \<Rightarrow> bool" where
  "starts_with_determiner_word p = (first_word (py_lower p) \<in> set determiners)"

definition plural_like :: "string \<Rightarrow> bool" where
  "plural_like p =
     (suffix ''s'' (py_lower p) \<and> \<not> suffix ''ss'' (py_lower p) \<and> \<not> suffix ''us'' (py_lower p))"

definition starts_with_vowel :: "string \<Rightarrow> bool" where
  "starts_with_vowel p = (p \<noteq> [] \<and> lower_char (hd p) \<in> set ''aeiou'')"

definition maybe_article_claim :: "string \<Rightarrow> string" where
  "maybe_article_claim noun =
     (let p = py_strip noun in
      if p = [] \<or> starts_with_determiner_word p \<or> plural_like p then p
      else (if starts_with_vowel p then ''an'' else ''a'') @ '' '' @ p)"

text \<open>
  The heuristic with the narrower determiner test: the determiner word counts when the
  character after it is a space (U+0020), so that more of the phrase follows.
\<close>

definition determiner_then_space :: "string \<Rightarrow> bool" where
  "determiner_then_space p =
     (starts_with_determiner_word p \<and>
      take 1 (drop (length (first_word (py_lower p))) (py_lower p)) = '' '')"

definition maybe_article_spec :: "string \<Rightarrow> string" where
  "maybe_article_spec noun =
     (let p = py_strip noun in
      if p = [] \<or> determiner_then_space p \<or> plural_like p then p
      else (if starts_with_vowel p then ''an'' else ''a'') @ '' '' @ p)"

text \<open>
  The steps of the renderer around a template: underscores of a label become spaces,
  and a sentence has its whitespace runs collapsed to single spaces, its first character
  capitalized and one period appended.
\<close>

definition label_text :: "string \<Rightarrow> string" where
  "label_text l = py_strip (py_replace (CHR ''_'') (CHR '' '') l)"

definition sentence_of :: "string \<Rightarrow> string" where
  "sentence_of body =
     (case py_join '' '' (py_split body) of
        [] \<Rightarrow> []
      | c # cs \<Rightarrow> upper_char c @ cs) @ ''.''"

text \<open>
  The relation label of an edge record, from its nested relation object, and the weight
  of an edge record, where a missing weight and one that \<open>float\<close> rejects count as 0.
\<close>

definition rel_label :: "json \<Rightarrow> string option" where
  "rel_label e =
     (case e of
        JObj d \<Rightarrow>
          (case map_of d ''rel'' of
             Some (JObj r) \<Rightarrow>
               (case map_of r ''label'' of Some (JStr l) \<Rightarrow> Some l | _ \<Rightarrow> None)
           | _ \<Rightarrow> None)
      | _ \<Rightarrow> None)"

definition edge_weight :: "builtins \<Rightarrow> json \<Rightarrow> pyfloat" where
  "edge_weight py e =
     (case e of
        JObj d \<Rightarrow>
          (case map_of d ''weight'' of
             None \<Rightarrow> Fin 0
           | Some v \<Rightarrow> (case py_float py v of None \<Rightarrow> Fin 0 | Some f \<Rightarrow> f))
      | _ \<Rightarrow> Fin 0)"

text \<open>The sentence of one ranked fact, as the list comprehension of line 152 renders it.\<close>

definition render_fact :: "fact_key \<times> pyfloat \<Rightarrow> py_error + string" where
  "render_fact kw = (case kw of ((s, r, ob), w) \<Rightarrow> edge_to_sentence s r ob)"

text \<open>
  The fact key of an edge record: its start label, relation label and end label, when
  all three resolve to a non-empty string.
\<close>

definition fact_key :: "builtins \<Rightarrow> json \<Rightarrow> fact_key option" where
  "fact_key py e =
     (case e of
        JObj d \<Rightarrow>
          (case rel_label e of
             Some l \<Rightarrow>
               (let s = as_label py (case map_of d ''start'' of Some v \<Rightarrow> v | None \<Rightarrow> JObj []);
                    t = as_label py (case map_of d ''end'' of Some v \<Rightarrow> v | None \<Rightarrow> JObj [])
                in if s \<noteq> [] \<and> l \<noteq> [] \<and> t \<noteq> [] then Some (s, l, t) else None)
           | None \<Rightarrow> None)
      | _ \<Rightarrow> None)"

text \<open>
  The edges the two fetch phases see, in the order of the requests, and those of them
  that the filter keeps.
\<close>

definition object_url :: "int \<Rightarrow> string \<Rightarrow> string" where
  "object_url limit obj = CONCEPTNET_API @ to_en_uri obj @ ''?limit='' @ str_int limit"

definition pair_url :: "int \<Rightarrow> string \<times> string \<Rightarrow> string" where
  "pair_url limit p =
     CONCEPTNET_API @ ''/query?node='' @ to_en_uri (fst p) @ ''&other='' @ to_en_uri (snd p)
       @ ''&limit='' @ str_int limit"

definition response_edges :: "remote \<Rightarrow> string \<Rightarrow> json list" where
  "response_edges http url =
     (case get_json http url of
        Inr data \<Rightarrow> (case edges_of data of Inr es \<Rightarrow> es | Inl err \<Rightarrow> [])
      | Inl err \<Rightarrow> [])"

definition fetched_edges :: "remote \<Rightarrow> string list \<Rightarrow> config \<Rightarrow> json list" where
  "fetched_edges http objects cfg =
     (let objs = dedup_objects objects {} [] in
      concat (map (\<lambda>obj. response_edges http (object_url (per_object_limit cfg) obj)) objs)
      @ concat (map (\<lambda>p. response_edges http (pair_url (pair_limit cfg) p))
                 (combinations2 objs)))"

definition filtered_edges :: "builtins \<Rightarrow> remote \<Rightarrow> string list \<Rightarrow> config \<Rightarrow> json list" where
  "filtered_edges py http objects cfg =
     filter (\<lambda>e. keep_edge py (rels_of (relations cfg)) (min_weight cfg) e = Inr True)
       (fetched_edges http objects cfg)"

text \<open>What \<open>add_edge_fact\<close> makes of \<open>best\<close> for an edge that the filter kept.\<close>

definition absorb :: "builtins \<Rightarrow> json \<Rightarrow> best \<Rightarrow> best" where
  "absorb py e best =
     (case fact_key py e of
        None \<Rightarrow> best
      | Some k \<Rightarrow>
          if f_gt (edge_weight py e) (case map_of best k of Some b \<Rightarrow> b | None \<Rightarrow> Fin (- 1))
          then AList.update k (edge_weight py e) best
          else best)"

text \<open>
  The invariant of the two loops, for one key and its entry in \<open>best\<close>: no entry when
  no edge seen so far for the key had a weight above \<open>-1\<close>, and otherwise the greatest
  weight seen for the key.
\<close>

definition key_inv :: "builtins \<Rightarrow> json list \<Rightarrow> fact_key \<Rightarrow> pyfloat option \<Rightarrow> bool" where
  "key_inv py seen k v =
     (case v of
        None \<Rightarrow> (\<forall>e\<in>set seen. fact_key py e = Some k \<longrightarrow> \<not> f_gt (edge_weight py e) (Fin (- 1)))
      | Some w \<Rightarrow>
          f_gt w (Fin (- 1)) \<and>
          (\<exists>e\<in>set seen. fact_key py e = Some k \<and> edge_weight py e = w) \<and>
          (\<forall>e\<in>set seen. fact_key py e = Some k \<longrightarrow> f_ge w (edge_weight py e)))"

definition tracks ::
  "builtins \<Rightarrow> string set \<Rightarrow> pyfloat \<Rightarrow> json list \<Rightarrow> best \<Rightarrow> bool" where
  "tracks py rels mw seen best =
     ((\<forall>e\<in>set seen. keep_edge py rels mw e = Inr True) \<and>
      distinct (map fst best) \<and>
      (\<forall>k. key_inv py seen k (map_of best k)))"

section \<open>Example inputs\<close>

text \<open>
  An interpreter for the examples, whose weights are numbers and whose labels are
  strings: none of its three conversions is consulted there.
\<close>

definition example_builtins :: builtins where
  "example_builtins =
     \<lparr>str_of = (\<lambda>v. []), float_of_str = (\<lambda>s. None), float_of_bigint = (\<lambda>n. None)\<rparr>"

text \<open>A well-formed edge record, and a service that answers each listed URL with its edges
  and every other URL with an empty object.\<close>

definition mk_edge :: "string \<Rightarrow> string \<Rightarrow> string \<Rightarrow> pyfloat \<Rightarrow> json" where
  "mk_edge s r t w =
     JObj [(''start'', JObj [(''label'', JStr s)]),
           (''rel'', JObj [(''label'', JStr r)]),
           (''end'', JObj [(''label'', JStr t)]),
           (''weight'', JFloat w)]"

definition mock_remote :: "(string \<times> json list) list \<Rightarrow> remote" where
  "mock_remote table url =
     Some (Response (Some (JObj (case map_of table url of
                                   Some es \<Rightarrow> [(''edges'', JArr es)]
                                 | None \<Rightarrow> []))))"

text \<open>The services of the examples.\<close>

definition dog_park_remote :: remote where
  "dog_park_remote =
     mock_remote [(''https://api.conceptnet.io/c/en/dog?limit=25'',
                   [mk_edge ''dog'' ''AtLocation'' ''park'' (Fin 3.2)])]"

definition hot_remote :: remote where
  "hot_remote =
     mock_remote [(''https://api.conceptnet.io/c/en/hot?limit=25'',
                   [mk_edge ''hot'' ''Antonym'' ''cold'' (Fin 2)])]"

definition bad_rel_remote :: remote where
  "bad_rel_remote =
     mock_remote [(''https://api.conceptnet.io/c/en/dog?limit=25'',
                   [JObj [(''start'', JObj [(''label'', JStr ''dog'')]),
                          (''rel'', JStr ''IsA''),
                          (''end'', JObj [(''label'', JStr ''animal'')]),
                          (''weight'', JFloat (Fin 2))]])]"

definition two_facts_remote :: remote where
  "two_facts_remote =
     mock_remote [(''https://api.conceptnet.io/c/en/dog?limit=25'',
                   [mk_edge ''dog'' ''AtLocation'' ''park'' (Fin 3.2),
                    mk_edge ''dog'' ''IsA'' ''animal'' (Fin 5)])]"

definition dedup_remote :: remote where
  "dedup_remote =
     mock_remote [(''https://api.conceptnet.io/c/en/dog?limit=25'',
                   [mk_edge ''dog'' ''IsA'' ''animal'' (Fin 2),
                    mk_edge ''dog'' ''IsA'' ''animal'' (Fin 5)])]"

definition negative_remote :: remote where
  "negative_remote =
     mock_remote [(''https://api.conceptnet.io/c/en/dog?limit=25'',
                   [mk_edge ''dog'' ''IsA'' ''animal'' (Fin (- 2))])]"

section \<open>Properties\<close>

subsection \<open>Whitespace\<close>

lemma py_rstrip_Nil: "py_rstrip [] = []"
  by (simp add: py_rstrip_def)

lemma py_rstrip_Cons:
  "py_rstrip (c # cs) = (if \<forall>x\<in>set (c # cs). py_isspace x then [] else c # py_rstrip cs)"
  by (auto simp: py_rstrip_def dropWhile_append)

lemma py_rstrip_all_space: "\<forall>c\<in>set u. py_isspace c \<Longrightarrow> py_rstrip u = []"
  by (cases u) (auto simp: py_rstrip_Nil py_rstrip_Cons)

lemma dropWhile_py_rstrip:
  "dropWhile py_isspace (py_rstrip x) = py_rstrip (dropWhile py_isspace x)"
proof (induction x)
  case Nil
  show ?case by (simp add: py_rstrip_Nil)
next
  case (Cons c cs)
  show ?case
  proof (cases "\<forall>x\<in>set (c # cs). py_isspace x")
    case True
    then have "dropWhile py_isspace (c # cs) = []" by simp
    moreover have "py_rstrip (c # cs) = []"
      using True by (rule py_rstrip_all_space)
    ultimately show ?thesis by (simp only: py_rstrip_Nil dropWhile.simps)
  next
    case False
    then show ?thesis using Cons by (auto simp: py_rstrip_Cons)
  qed
qed

lemma py_rstrip_append_word:
  "\<forall>c\<in>set w. \<not> py_isspace c \<Longrightarrow> py_rstrip (w @ u) = w @ py_rstrip u"
  by (induction w) (auto simp: py_rstrip_Cons)

lemma re_sub_ws_append_word:
  "\<forall>c\<in>set w. \<not> py_isspace c \<Longrightarrow> re_sub_ws r (w @ u) = w @ re_sub_ws r u"
  by (induction w) auto

lemma py_split_Nil_iff: "py_split s = [] \<longleftrightarrow> (\<forall>c\<in>set s. py_isspace c)"
  by (subst py_split.simps) (auto simp: Let_def dropWhile_eq_Nil_conv)

text \<open>
  Replacing the whitespace runs of a stripped string is joining its words: the first
  word is followed either by nothing but whitespace or by a run and the remaining words.
\<close>

lemma re_sub_ws_strip: "re_sub_ws r (py_strip s) = py_join r (py_split s)"
proof (induction s rule: py_split.induct)
  case (1 s)
  define t where "t = dropWhile py_isspace s"
  define w where "w = takeWhile (\<lambda>c. \<not> py_isspace c) t"
  define u where "u = dropWhile (\<lambda>c. \<not> py_isspace c) t"
  have strip: "py_strip s = py_rstrip t"
    by (simp add: py_strip_def py_lstrip_def t_def)
  show ?case
  proof (cases "t = []")
    case True
    then show ?thesis
      using strip by (subst py_split.simps) (simp add: t_def [symmetric] py_rstrip_Nil)
  next
    case False
    have tw: "t = w @ u" by (simp add: w_def u_def)
    have w: "\<forall>c\<in>set w. \<not> py_isspace c"
      by (auto simp: w_def dest: set_takeWhileD)
    have IH: "re_sub_ws r (py_strip u) = py_join r (py_split u)"
      using 1 [OF t_def False] by (simp add: u_def)
    have split: "py_split s = w # py_split u"
      using False by (subst py_split.simps) (simp add: t_def [symmetric] w_def u_def)
    have lhs: "re_sub_ws r (py_strip s) = w @ re_sub_ws r (py_rstrip u)"
      using w by (simp add: strip tw py_rstrip_append_word re_sub_ws_append_word)
    show ?thesis
    proof (cases "\<forall>c\<in>set u. py_isspace c")
      case True
      then have "py_split u = []" by (simp add: py_split_Nil_iff)
      with True show ?thesis by (simp add: lhs split py_rstrip_all_space)
    next
      case nall: False
      then obtain c cs where u: "u = c # cs" by (cases u) auto
      have c: "py_isspace c"
        using u hd_dropWhile [of "\<lambda>c. \<not> py_isspace c" t] by (simp add: u_def)
      have ru: "py_rstrip u = c # py_rstrip cs"
        using nall by (simp add: u py_rstrip_Cons)
      have "dropWhile py_isspace (py_rstrip cs) = py_strip u"
        using c by (simp add: dropWhile_py_rstrip py_strip_def py_lstrip_def u)
      then have "re_sub_ws r (py_rstrip u) = r @ py_join r (py_split u)"
        using c IH by (simp add: ru)
      moreover obtain v vs where "py_split u = v # vs"
        using nall by (cases "py_split u") (auto simp: py_split_Nil_iff)
      ultimately show ?thesis by (simp add: lhs split)
    qed
  qed
qed

lemma of_char_less_256: "(of_char c :: nat) < 256"
  by (metis of_char_mod_256 mod_less_divisor zero_less_numeral)

lemma py_isspace_lower_char: "py_isspace (lower_char c) = py_isspace c"
proof -
  have "(of_char c :: nat) < 256" by (rule of_char_less_256)
  then show ?thesis
    by (auto simp: py_isspace_def lower_char_def Let_def)
qed

lemma py_lower_strip: "py_lower (py_strip s) = py_strip (py_lower s)"
  by (simp add: py_lower_def py_strip_def py_lstrip_def py_rstrip_def dropWhile_map rev_map
      comp_def py_isspace_lower_char)

subsection \<open>The normalizer\<close>

lemma norm_concept_refines: "norm_concept s = norm_spec s"
  by (simp add: norm_concept_def norm_spec_def py_lower_strip re_sub_ws_strip)

lemma ident_underscore: "ident_char (CHR ''_'')"
  by (simp add: ident_char_def)

lemma filter_re_sub_ws_Nil_iff:
  "filter ident_char (re_sub_ws ''_'' x) = [] \<longleftrightarrow>
     (\<forall>c\<in>set x. \<not> py_isspace c \<and> \<not> ident_char c)"
  by (induction "''_''" x rule: re_sub_ws.induct) (auto simp: ident_underscore)

lemma norm_concept_Nil_iff:
  "norm_concept s = [] \<longleftrightarrow>
     (\<forall>c\<in>set (py_strip s). \<not> py_isspace c \<and> \<not> ident_char (lower_char c))"
  by (simp add: norm_concept_def filter_re_sub_ws_Nil_iff py_lower_def py_isspace_lower_char
      del: filter_empty_conv filter_False)

lemma set_py_strip: "set (py_strip s) \<subseteq> set s"
proof -
  have "set (py_rstrip t) \<subseteq> set t" for t
    using set_dropWhileD [of _ py_isspace "rev t"] by (auto simp: py_rstrip_def)
  then have "set (py_strip s) \<subseteq> set (py_lstrip s)" by (simp add: py_strip_def)
  then show ?thesis by (auto simp: py_lstrip_def dest: set_dropWhileD)
qed

lemma entirely_invalid_iff: "entirely_invalid s \<longleftrightarrow> (\<forall>c\<in>set s. \<not> ident_char (lower_char c))"
  by (simp add: entirely_invalid_def py_lower_def filter_empty_conv)

text \<open>
  C7, as the claim states it, fails in its last clause: whitespace between invalid
  characters becomes an underscore before the invalid characters are removed. The
  input "! !" is entirely invalid and normalizes to "_", not to the empty string.
\<close>

theorem entirely_invalid_counterexample:
  "entirely_invalid ''! !'' \<and> norm_concept ''! !'' = ''_'' \<and> norm_concept ''! !'' \<noteq> []"
  by code_simp

text \<open>
  C7, amended. For every input string the normalizer returns the string lowercased,
  its whitespace runs collapsed to single underscores (leading and trailing whitespace
  dropped) and every character outside \<open>[a-z0-9_]\<close> removed: it agrees with
  \<open>norm_spec\<close>. "Golden Retriever" gives "golden_retriever" and "cafe!!" with U+00E9
  for its e gives "caf". The empty input gives the empty string, and so does an
  entirely invalid input that has no whitespace between its characters; the result is
  empty for exactly the inputs whose characters, once trimmed, are neither whitespace
  nor, lowercased, in \<open>[a-z0-9_]\<close>. The function is total: there is no error to return.
\<close>

theorem norm_concept_normalizes:
  "norm_concept s = norm_spec s \<and>
   norm_concept ''Golden Retriever'' = ''golden_retriever'' \<and>
   norm_concept (''caf'' @ [CHR 0xE9] @ ''!!'') = ''caf'' \<and>
   norm_concept [] = [] \<and>
   (entirely_invalid s \<and> (\<forall>c\<in>set (py_strip s). \<not> py_isspace c) \<longrightarrow> norm_concept s = []) \<and>
   (norm_concept s = [] \<longleftrightarrow>
      (\<forall>c\<in>set (py_strip s). \<not> py_isspace c \<and> \<not> ident_char (lower_char c)))"
proof -
  have "norm_concept ''Golden Retriever'' = ''golden_retriever''" by code_simp
  moreover have "norm_concept (''caf'' @ [CHR 0xE9] @ ''!!'') = ''caf''" by code_simp
  moreover have "norm_concept [] = []" by code_simp
  moreover have "entirely_invalid s \<and> (\<forall>c\<in>set (py_strip s). \<not> py_isspace c)
                   \<longrightarrow> norm_concept s = []"
    using set_py_strip [of s] by (auto simp: norm_concept_Nil_iff entirely_invalid_iff)
  ultimately show ?thesis
    using norm_concept_refines [of s] norm_concept_Nil_iff [of s] by blast
qed

theorem norm_concept_normalizes_witness:
  "norm_concept '' ?%! '' = [] \<and> norm_spec '' ?%! '' = []"
proof -
  have h: "entirely_invalid '' ?%! '' \<and> (\<forall>c\<in>set (py_strip '' ?%! ''). \<not> py_isspace c)"
    by code_simp
  from norm_concept_normalizes [of "'' ?%! ''"] h
  have "norm_concept '' ?%! '' = []" by blast
  moreover from norm_concept_normalizes [of "'' ?%! ''"]
  have "norm_concept '' ?%! '' = norm_spec '' ?%! ''" by blast
  ultimately show ?thesis by simp
qed

subsection \<open>The article heuristic\<close>

lemma py_startswith_prefix: "py_startswith s p = prefix p s"
  by (auto simp: py_startswith_def prefix_def) (metis append_take_drop_id)

lemma py_endswith_suffix: "py_endswith s p = suffix p s"
proof
  assume "py_endswith s p"
  then have "s = take (length s - length p) s @ p"
    by (metis append_take_drop_id py_endswith_def)
  then show "suffix p s" by (metis suffixI)
next
  assume "suffix p s"
  then obtain zs where "s = zs @ p" by (auto simp: suffix_def)
  then show "py_endswith s p" by (simp add: py_endswith_def)
qed

lemma py_rstrip_idem: "py_rstrip (py_rstrip s) = py_rstrip s"
  by (simp add: py_rstrip_def)

lemma py_strip_idem: "py_strip (py_strip s) = py_strip s"
  by (simp add: py_strip_def py_lstrip_def dropWhile_py_rstrip py_rstrip_idem)

lemma choose_article_stripped:
  "choose_article (py_strip noun) = (if starts_with_vowel (py_strip noun) then ''an'' else ''a'')"
proof -
  have "choose_article (py_strip noun) =
          (case py_lower (py_strip noun) of [] \<Rightarrow> ''a''
           | c # cs \<Rightarrow> if c \<in> set ''aeiou'' then ''an'' else ''a'')"
    by (simp add: choose_article_def py_strip_idem)
  then show ?thesis
    by (cases "py_strip noun") (simp_all add: starts_with_vowel_def py_lower_def)
qed

lemma word_then_space:
  assumes "\<forall>c\<in>set d. \<not> py_isspace c"
  shows "prefix (d @ '' '') l \<longleftrightarrow>
           first_word l = d \<and> take 1 (drop (length (first_word l)) l) = '' ''"
proof
  assume "prefix (d @ '' '') l"
  then obtain rest where l: "l = d @ CHR '' '' # rest" by (auto simp: prefix_def)
  have "takeWhile (\<lambda>c. \<not> py_isspace c) (d @ CHR '' '' # rest) = d"
    using assms by (simp add: takeWhile_append2 py_isspace_def)
  then show "first_word l = d \<and> take 1 (drop (length (first_word l)) l) = '' ''"
    by (simp add: first_word_def l)
next
  assume a: "first_word l = d \<and> take 1 (drop (length (first_word l)) l) = '' ''"
  have "l = first_word l @ drop (length (first_word l)) l"
    by (metis append_take_drop_id first_word_def takeWhile_eq_take)
  moreover from a obtain rest where "drop (length (first_word l)) l = CHR '' '' # rest"
    by (cases "drop (length (first_word l)) l") simp_all
  ultimately have "l = d @ '' '' @ rest" using a by simp
  then show "prefix (d @ '' '') l" by (metis append.assoc prefixI)
qed

lemma determiners_no_space: "\<forall>d\<in>set determiners. \<forall>c\<in>set d. \<not> py_isspace c"
  by code_simp

lemma determiner_then_space_iff:
  "determiner_then_space p \<longleftrightarrow> (\<exists>d\<in>set determiners. prefix (d @ '' '') (py_lower p))"
  using determiners_no_space
  by (auto simp: determiner_then_space_def starts_with_determiner_word_def word_then_space)

lemma maybe_article_refines: "maybe_article noun = maybe_article_spec noun"
  by (simp add: maybe_article_def maybe_article_spec_def Let_def
      py_startswith_any_def py_endswith_any_def py_startswith_prefix py_endswith_suffix
      determiner_then_space_iff determiners_def plural_like_def choose_article_stripped)

text \<open>
  C9, as the claim states it, fails: line 53 tests for a determiner followed by a
  space. The phrase "the" starts with a determiner word and ends in no "s", and it
  gets an article all the same.
\<close>

theorem bare_determiner_counterexample:
  "starts_with_determiner_word ''the'' \<and>
   maybe_article_claim ''the'' = ''the'' \<and>
   maybe_article ''the'' = ''a the''"
  by code_simp

text \<open>
  C9, amended. For every noun phrase \<open>_maybe_article\<close> works on the trimmed phrase: it
  returns it as it is when it is empty, starts with a determiner word (a, an, the,
  this, that, these, those) that is followed by a space, or ends in "s" but not in "ss"
  or "us", and otherwise prepends "an" if it starts with a vowel letter and "a" if not.
  "apple" gives "an apple", "dog" gives "a dog", "the park" and "cats" stay as they
  are. The tests do not depend on case: "The Park" and "CATS" stay as they are, and
  "Apple" gives "an Apple".
\<close>

theorem maybe_article_heuristic:
  "maybe_article noun = maybe_article_spec noun \<and>
   maybe_article ''apple'' = ''an apple'' \<and>
   maybe_article ''dog'' = ''a dog'' \<and>
   maybe_article ''the park'' = ''the park'' \<and>
   maybe_article ''cats'' = ''cats'' \<and>
   maybe_article ''The Park'' = ''The Park'' \<and>
   maybe_article ''CATS'' = ''CATS'' \<and>
   maybe_article ''Apple'' = ''an Apple''"
proof -
  have "maybe_article ''apple'' = ''an apple''" by code_simp
  moreover have "maybe_article ''dog'' = ''a dog''" by code_simp
  moreover have "maybe_article ''the park'' = ''the park''" by code_simp
  moreover have "maybe_article ''cats'' = ''cats''" by code_simp
  moreover have "maybe_article ''The Park'' = ''The Park''" by code_simp
  moreover have "maybe_article ''CATS'' = ''CATS''" by code_simp
  moreover have "maybe_article ''Apple'' = ''an Apple''" by code_simp
  ultimately show ?thesis by (simp only: maybe_article_refines simp_thms)
qed

theorem maybe_article_heuristic_witness:
  "maybe_article_spec '' Glass'' = ''a Glass'' \<and>
   maybe_article_spec ''THAT old tree'' = ''THAT old tree'' \<and>
   maybe_article_spec ''Eggs'' = ''Eggs'' \<and>
   maybe_article_spec ''the'' = ''a the''"
proof -
  have "maybe_article '' Glass'' = ''a Glass''" by code_simp
  moreover have "maybe_article ''THAT old tree'' = ''THAT old tree''" by code_simp
  moreover have "maybe_article ''Eggs'' = ''Eggs''" by code_simp
  moreover have "maybe_article ''the'' = ''a the''" by code_simp
  ultimately show ?thesis
    using maybe_article_heuristic [of "'' Glass''"]
      maybe_article_heuristic [of "''THAT old tree''"]
      maybe_article_heuristic [of "''Eggs''"]
      maybe_article_heuristic [of "''the''"]
    by simp
qed

subsection \<open>Sentences\<close>

lemma py_isspace_space: "py_isspace (CHR '' '')"
  by (simp add: py_isspace_def)

lemma Ball_dropWhile_iff: "(\<forall>x\<in>set (dropWhile P xs). P x) \<longleftrightarrow> (\<forall>x\<in>set xs. P x)"
  by (induction xs) auto

lemma re_sub_ws_all_space:
  "(\<forall>c\<in>set (re_sub_ws '' '' z). py_isspace c) \<longleftrightarrow> (\<forall>c\<in>set z. py_isspace c)"
proof (induction "'' ''" z rule: re_sub_ws.induct)
  case 1
  show ?case by simp
next
  case (2 c cs)
  show ?case
  proof (cases "py_isspace c")
    case True
    have "(\<forall>x\<in>set (dropWhile py_isspace cs). py_isspace x) \<longleftrightarrow> (\<forall>x\<in>set cs. py_isspace x)"
      by (rule Ball_dropWhile_iff)
    with True 2 show ?thesis by (simp add: py_isspace_space)
  next
    case False
    with 2 show ?thesis by simp
  qed
qed

lemma re_sub_ws_hd_word:
  "z = [] \<or> \<not> py_isspace (hd z) \<Longrightarrow> dropWhile py_isspace (re_sub_ws r z) = re_sub_ws r z"
  by (cases z) auto

lemma py_lstrip_re_sub_ws:
  "py_lstrip (re_sub_ws '' '' x) = re_sub_ws '' '' (py_lstrip x)"
proof (cases x)
  case Nil
  then show ?thesis by (simp add: py_lstrip_def)
next
  case (Cons c cs)
  have z: "dropWhile py_isspace cs = [] \<or> \<not> py_isspace (hd (dropWhile py_isspace cs))"
    using hd_dropWhile [of py_isspace cs] by blast
  show ?thesis
    using re_sub_ws_hd_word [OF z, of "'' ''"]
    by (simp add: Cons py_lstrip_def py_isspace_space)
qed

lemma py_rstrip_re_sub_ws:
  "py_rstrip (re_sub_ws '' '' y) = re_sub_ws '' '' (py_rstrip y)"
proof (induction "'' ''" y rule: re_sub_ws.induct)
  case 1
  show ?case by (simp add: py_rstrip_Nil)
next
  case (2 c cs)
  show ?case
  proof (cases "py_isspace c")
    case False
    with 2 show ?thesis
      using re_sub_ws_all_space [of cs] by (simp add: py_rstrip_Cons)
  next
    case True
    show ?thesis
    proof (cases "\<forall>x\<in>set cs. py_isspace x")
      case all: True
      then have d: "dropWhile py_isspace cs = []" by simp
      have "re_sub_ws '' '' (c # cs) = '' ''"
        using True by (simp only: re_sub_ws.simps d if_True append_Nil2)
      moreover have "py_rstrip (c # cs) = []"
        using True all by (intro py_rstrip_all_space) simp
      ultimately show ?thesis
        by (simp add: py_rstrip_Cons py_isspace_space py_rstrip_Nil)
    next
      case nall: False
      then have d: "\<not> (\<forall>x\<in>set (dropWhile py_isspace cs). py_isspace x)"
        by (metis dropWhile_eq_Nil_conv hd_dropWhile hd_in_set)
      then have "\<not> (\<forall>x\<in>set (re_sub_ws '' '' (dropWhile py_isspace cs)). py_isspace x)"
        by (simp add: re_sub_ws_all_space)
      then have "py_rstrip (re_sub_ws '' '' (c # cs))
                   = CHR '' '' # re_sub_ws '' '' (py_rstrip (dropWhile py_isspace cs))"
        using True 2 by (simp add: py_rstrip_Cons)
      moreover have "py_rstrip (c # cs) = c # py_rstrip cs"
        using nall by (simp add: py_rstrip_Cons)
      ultimately show ?thesis
        using True by (simp add: dropWhile_py_rstrip)
    qed
  qed
qed

lemma py_strip_re_sub_ws: "py_strip (re_sub_ws '' '' x) = py_join '' '' (py_split x)"
proof -
  have "py_strip (re_sub_ws '' '' x) = re_sub_ws '' '' (py_strip x)"
    by (simp add: py_strip_def py_lstrip_re_sub_ws py_rstrip_re_sub_ws)
  then show ?thesis by (simp add: re_sub_ws_strip)
qed

lemma py_strip_Nil_iff: "py_strip y = [] \<longleftrightarrow> (\<forall>c\<in>set y. py_isspace c)"
proof -
  have "py_strip y = [] \<longleftrightarrow> dropWhile py_isspace (dropWhile py_isspace y) = []"
    unfolding py_strip_def py_lstrip_def py_rstrip_def
    by (metis dropWhile_eq_Nil_conv rev_is_Nil_conv set_rev dropWhile_idem)
  then show ?thesis by (simp add: dropWhile_eq_Nil_conv)
qed

lemma finish_sentence:
  assumes "\<exists>c\<in>set body. \<not> py_isspace c"
  shows "(case py_strip (re_sub_ws '' '' body) of
            [] \<Rightarrow> Inl IndexError
          | c # cs \<Rightarrow> Inr (upper_char c @ cs @ ''.'')) = Inr (sentence_of body)"
proof -
  have "py_strip (re_sub_ws '' '' body) \<noteq> []"
    using assms by (simp add: py_strip_Nil_iff re_sub_ws_all_space)
  then show ?thesis
    by (cases "py_strip (re_sub_ws '' '' body)")
       (simp_all add: sentence_of_def py_strip_re_sub_ws [symmetric])
qed


lemma label_text_stripped: "py_strip (label_text l) = label_text l"
  by (simp add: label_text_def py_strip_idem)

lemma maybe_article_determined:
  assumes "py_strip o1 = o1"
    and "py_startswith_any (py_lower o1) [''a '', ''an '', ''the '']"
  shows "maybe_article o1 = o1"
proof -
  have "o1 \<noteq> []"
    using assms(2) by (auto simp: py_startswith_any_def py_startswith_def py_lower_def)
  moreover have "py_startswith_any (py_lower o1)
      [''a '', ''an '', ''the '', ''this '', ''that '', ''these '', ''those '']"
    using assms(2) by (auto simp: py_startswith_any_def)
  ultimately show ?thesis
    by (simp add: maybe_article_def assms(1))
qed

lemma known_keys: "fst ` set REL_TEMPLATES = DEFAULT_RELATIONS"
  by (auto simp: REL_TEMPLATES_def DEFAULT_RELATIONS_def)

lemma edge_to_sentence_known:
  assumes "map_of REL_TEMPLATES rel = Some t"
    and "\<exists>c\<in>set (t (label_text s) (label_text ob)). \<not> py_isspace c"
  shows "edge_to_sentence s rel ob = Inr (sentence_of (t (label_text s) (label_text ob)))"
  using finish_sentence [OF assms(2)]
  by (simp add: edge_to_sentence_def label_text_def assms(1))

lemma edge_to_sentence_fallback:
  assumes "rel \<notin> DEFAULT_RELATIONS" and "\<exists>c\<in>set rel. \<not> py_isspace c"
  shows "edge_to_sentence s rel ob =
           Inr (sentence_of (maybe_article (label_text s) @ '' '' @ rel @ '' '' @ label_text ob))"
proof -
  have none: "map_of REL_TEMPLATES rel = None"
    using assms(1) by (simp add: map_of_eq_None_iff known_keys)
  have "\<exists>c\<in>set (maybe_article (label_text s) @ '' '' @ rel @ '' '' @ label_text ob).
          \<not> py_isspace c"
    using assms(2) by auto
  from finish_sentence [OF this] show ?thesis
    by (simp add: edge_to_sentence_def label_text_def none)
qed

lemma render_template:
  assumes "map_of REL_TEMPLATES rel = Some t"
    and "t (label_text s) (label_text ob) = a @ m @ b"
    and "\<exists>c\<in>set m. \<not> py_isspace c"
  shows "edge_to_sentence s rel ob = Inr (sentence_of (a @ m @ b))"
proof -
  have "\<exists>c\<in>set (t (label_text s) (label_text ob)). \<not> py_isspace c"
    using assms(3) by (auto simp: assms(2))
  from edge_to_sentence_known [OF assms(1) this] show ?thesis
    by (simp add: assms(2))
qed

lemma render_IsA:
  "edge_to_sentence s ''IsA'' ob =
     Inr (sentence_of (maybe_article (label_text s) @ '' is '' @ maybe_article (label_text ob)))"
proof (rule render_template)
  show "map_of REL_TEMPLATES ''IsA'' = Some (\<lambda>s o'. maybe_article s @ '' is '' @
          (if \<not> py_startswith_any (py_lower o') [''a '', ''an '', ''the '']
           then maybe_article o' else o'))"
    by (simp add: REL_TEMPLATES_def)
  show "maybe_article (label_text s) @ '' is '' @
          (if \<not> py_startswith_any (py_lower (label_text ob)) [''a '', ''an '', ''the '']
           then maybe_article (label_text ob) else label_text ob)
        = maybe_article (label_text s) @ '' is '' @ maybe_article (label_text ob)"
    using maybe_article_determined [OF label_text_stripped, of ob] by simp
  show "\<exists>c\<in>set '' is ''. \<not> py_isspace c"
    by (simp add: py_isspace_def)
qed

lemma render_PartOf:
  "edge_to_sentence s ''PartOf'' ob =
     Inr (sentence_of (maybe_article (label_text s) @ '' is part of '' @ maybe_article (label_text ob)))"
  by (rule render_template [where t = "\<lambda>s o'. maybe_article s @ '' is part of '' @ maybe_article o'"])
     (simp_all add: REL_TEMPLATES_def py_isspace_def)

lemma render_HasA:
  "edge_to_sentence s ''HasA'' ob =
     Inr (sentence_of (maybe_article (label_text s) @ '' has '' @ maybe_article (label_text ob)))"
  by (rule render_template [where t = "\<lambda>s o'. maybe_article s @ '' has '' @ maybe_article o'"])
     (simp_all add: REL_TEMPLATES_def py_isspace_def)

lemma render_UsedFor:
  "edge_to_sentence s ''UsedFor'' ob =
     Inr (sentence_of (maybe_article (label_text s) @ '' is used for '' @ label_text ob))"
  by (rule render_template [where t = "\<lambda>s o'. maybe_article s @ '' is used for '' @ o'"])
     (simp_all add: REL_TEMPLATES_def py_isspace_def)

lemma render_CapableOf:
  "edge_to_sentence s ''CapableOf'' ob =
     Inr (sentence_of (maybe_article (label_text s) @ '' can '' @ label_text ob))"
  by (rule render_template [where t = "\<lambda>s o'. maybe_article s @ '' can '' @ o'"])
     (simp_all add: REL_TEMPLATES_def py_isspace_def)

lemma render_ReceivesAction:
  "edge_to_sentence s ''ReceivesAction'' ob =
     Inr (sentence_of (maybe_article (label_text s) @ '' can be '' @ label_text ob))"
  by (rule render_template [where t = "\<lambda>s o'. maybe_article s @ '' can be '' @ o'"])
     (simp_all add: REL_TEMPLATES_def py_isspace_def)

lemma render_AtLocation:
  "edge_to_sentence s ''AtLocation'' ob =
     Inr (sentence_of (maybe_article (label_text s) @ '' is often found in ''
                        @ maybe_article (label_text ob)))"
  by (rule render_template
        [where t = "\<lambda>s o'. maybe_article s @ '' is often found in '' @ maybe_article o'"])
     (simp_all add: REL_TEMPLATES_def py_isspace_def)

lemma render_LocatedNear:
  "edge_to_sentence s ''LocatedNear'' ob =
     Inr (sentence_of (maybe_article (label_text s) @ '' is often near ''
                        @ maybe_article (label_text ob)))"
  by (rule render_template
        [where t = "\<lambda>s o'. maybe_article s @ '' is often near '' @ maybe_article o'"])
     (simp_all add: REL_TEMPLATES_def py_isspace_def)

lemma render_HasProperty:
  "edge_to_sentence s ''HasProperty'' ob =
     Inr (sentence_of (maybe_article (label_text s) @ '' can be '' @ label_text ob))"
  by (rule render_template [where t = "\<lambda>s o'. maybe_article s @ '' can be '' @ o'"])
     (simp_all add: REL_TEMPLATES_def py_isspace_def)

text \<open>
  C6. For each of the nine known relations the renderer applies that relation's
  template: underscores of the subject and object labels become spaces, the article
  heuristic is applied to the subject and, for IsA, PartOf, HasA, AtLocation and
  LocatedNear, to the object, whitespace is collapsed, the first character is capitalized
  and one period is appended. For IsA the test for an object that already has a
  determiner changes nothing: the article heuristic leaves such an object as it is. With
  the default configuration, the objects dog and park and the mocked edge (dog,
  AtLocation, park, 3.2), the function returns exactly "A dog is often found in a park.".
\<close>

theorem known_relation_templates:
  "edge_to_sentence s ''IsA'' ob =
     Inr (sentence_of (maybe_article (label_text s) @ '' is '' @ maybe_article (label_text ob))) \<and>
   edge_to_sentence s ''PartOf'' ob =
     Inr (sentence_of (maybe_article (label_text s) @ '' is part of ''
                        @ maybe_article (label_text ob))) \<and>
   edge_to_sentence s ''HasA'' ob =
     Inr (sentence_of (maybe_article (label_text s) @ '' has '' @ maybe_article (label_text ob))) \<and>
   edge_to_sentence s ''UsedFor'' ob =
     Inr (sentence_of (maybe_article (label_text s) @ '' is used for '' @ label_text ob)) \<and>
   edge_to_sentence s ''CapableOf'' ob =
     Inr (sentence_of (maybe_article (label_text s) @ '' can '' @ label_text ob)) \<and>
   edge_to_sentence s ''ReceivesAction'' ob =
     Inr (sentence_of (maybe_article (label_text s) @ '' can be '' @ label_text ob)) \<and>
   edge_to_sentence s ''AtLocation'' ob =
     Inr (sentence_of (maybe_article (label_text s) @ '' is often found in ''
                        @ maybe_article (label_text ob))) \<and>
   edge_to_sentence s ''LocatedNear'' ob =
     Inr (sentence_of (maybe_article (label_text s) @ '' is often near ''
                        @ maybe_article (label_text ob))) \<and>
   edge_to_sentence s ''HasProperty'' ob =
     Inr (sentence_of (maybe_article (label_text s) @ '' can be '' @ label_text ob)) \<and>
   get_conceptnet_facts_for_image example_builtins dog_park_remote [''dog'', ''park'']
     default_config = Inr [''A dog is often found in a park.'']"
proof -
  have "get_conceptnet_facts_for_image example_builtins dog_park_remote [''dog'', ''park'']
          default_config = Inr [''A dog is often found in a park.'']"
    by code_simp
  then show ?thesis
    by (simp only: render_IsA render_PartOf render_HasA render_UsedFor render_CapableOf
        render_ReceivesAction render_AtLocation render_LocatedNear render_HasProperty simp_thms)
qed

theorem known_relation_templates_witness:
  "edge_to_sentence ''golden_retriever'' ''IsA'' ''the  dog'' = Inr ''A golden retriever is the dog.'' \<and>
   edge_to_sentence ''wheel'' ''PartOf'' ''car'' = Inr ''A wheel is part of a car.''"
proof -
  have "sentence_of (maybe_article (label_text ''golden_retriever'') @ '' is ''
          @ maybe_article (label_text ''the  dog'')) = ''A golden retriever is the dog.''"
    by code_simp
  moreover have "sentence_of (maybe_article (label_text ''wheel'') @ '' is part of ''
          @ maybe_article (label_text ''car'')) = ''A wheel is part of a car.''"
    by code_simp
  ultimately show ?thesis
    using known_relation_templates [of "''golden_retriever''" "''the  dog''"]
      known_relation_templates [of "''wheel''" "''car''"]
    by simp
qed

text \<open>
  C1, as the claim states it, fails: the fallback template applies the article
  heuristic to the subject, so (hot, Antonym, cold) renders as "A hot Antonym cold.",
  also through the top-level function with Antonym as the allowed relation.
\<close>

theorem fallback_unarticled_counterexample:
  "''Antonym'' \<notin> DEFAULT_RELATIONS \<and>
   edge_to_sentence ''hot'' ''Antonym'' ''cold'' \<noteq> Inr ''Hot Antonym cold.'' \<and>
   get_conceptnet_facts_for_image example_builtins hot_remote [''hot'']
     (default_config\<lparr>relations := Some {''Antonym''}\<rparr>) = Inr [''A hot Antonym cold.'']"
proof -
  have "''Antonym'' \<notin> DEFAULT_RELATIONS" by (simp add: DEFAULT_RELATIONS_def)
  moreover have "edge_to_sentence ''hot'' ''Antonym'' ''cold'' = Inr ''A hot Antonym cold.''"
    by code_simp
  moreover have "get_conceptnet_facts_for_image example_builtins hot_remote [''hot'']
     (default_config\<lparr>relations := Some {''Antonym''}\<rparr>) = Inr [''A hot Antonym cold.'']"
    by code_simp
  ultimately show ?thesis by simp
qed

text \<open>
  C1, amended. For every fact key whose relation label is not one of the nine known
  relations and has a character that is not whitespace, the renderer produces the
  sentence of the fallback template "{subject} {relation_label} {object}": the article
  heuristic is applied to the subject, the relation label is put in as it is and the
  object gets no article. (hot, Antonym, cold) renders as "A hot Antonym cold.".
\<close>

theorem fallback_template:
  assumes "rel \<notin> DEFAULT_RELATIONS" and "\<exists>c\<in>set rel. \<not> py_isspace c"
  shows "edge_to_sentence s rel ob =
           Inr (sentence_of (maybe_article (label_text s) @ '' '' @ rel @ '' '' @ label_text ob))"
  using assms by (rule edge_to_sentence_fallback)

theorem fallback_template_witness:
  "edge_to_sentence ''hot'' ''Antonym'' ''cold'' = Inr ''A hot Antonym cold.''"
proof -
  have r: "''Antonym'' \<notin> DEFAULT_RELATIONS" by (simp add: DEFAULT_RELATIONS_def)
  have v: "\<exists>c\<in>set ''Antonym''. \<not> py_isspace c" by (simp add: py_isspace_def)
  have "sentence_of (maybe_article (label_text ''hot'') @ '' '' @ ''Antonym'' @ '' ''
          @ label_text ''cold'') = ''A hot Antonym cold.''"
    by code_simp
  with fallback_template [OF r v, of "''hot''" "''cold''"] show ?thesis by simp
qed

subsection \<open>The allowed relations\<close>

text \<open>
  C10. An empty set passed as \<open>relations\<close> is falsy, so line 101 takes the default nine
  relations: the function returns what it returns when no \<open>relations\<close> argument is
  given.
\<close>

theorem empty_relations_default:
  "rels_of (Some {}) = DEFAULT_RELATIONS \<and>
   get_conceptnet_facts_for_image py http objects (cfg\<lparr>relations := Some {}\<rparr>) =
   get_conceptnet_facts_for_image py http objects (cfg\<lparr>relations := None\<rparr>)"
  by (simp add: get_conceptnet_facts_for_image_def ranked_facts_def collect_best_def
      rels_of_def cong: sum.case_cong)

theorem empty_relations_default_witness:
  "get_conceptnet_facts_for_image example_builtins dog_park_remote [''dog'', ''park'']
     (default_config\<lparr>relations := Some {}\<rparr>) = Inr [''A dog is often found in a park.'']"
proof -
  have "get_conceptnet_facts_for_image example_builtins dog_park_remote [''dog'', ''park'']
     (default_config\<lparr>relations := None\<rparr>) = Inr [''A dog is often found in a park.'']"
    by code_simp
  with empty_relations_default
    [of example_builtins dog_park_remote "[''dog'', ''park'']" default_config]
  show ?thesis by simp
qed

subsection \<open>The edge filter\<close>

text \<open>
  C2 fails on the code. An edge whose \<open>rel\<close> field is not an object is not dropped:
  \<open>keep_edge\<close> calls \<open>.get\<close> on it and the \<open>AttributeError\<close> leaves the top-level
  function.
\<close>

theorem nonobject_rel_raises:
  "keep_edge example_builtins DEFAULT_RELATIONS (Fin 1)
     (JObj [(''start'', JObj [(''label'', JStr ''dog'')]),
            (''rel'', JStr ''IsA''),
            (''end'', JObj [(''label'', JStr ''animal'')]),
            (''weight'', JFloat (Fin 2))]) = Inl AttributeError \<and>
   get_conceptnet_facts_for_image example_builtins bad_rel_remote [''dog''] default_config
     = Inl AttributeError"
proof -
  have "get_conceptnet_facts_for_image example_builtins bad_rel_remote [''dog''] default_config
     = Inl AttributeError"
    by code_simp
  then show ?thesis
    by (simp add: keep_edge_def py_get_def)
qed

lemma py_float_zero: "py_float py (JFloat (Fin 0)) = Some (Fin 0)"
  by (simp add: py_float_def)

lemma weight_object: "weight py (JObj d) = Inr (edge_weight py (JObj d))"
  by (cases "map_of d ''weight''")
     (simp_all add: weight_def py_get_def edge_weight_def py_float_zero)

lemma keep_edge_True_iff:
  "keep_edge py rels mw e = Inr True \<longleftrightarrow>
     (\<exists>l. rel_label e = Some l \<and> l \<in> rels) \<and> f_ge (edge_weight py e) mw"
proof (cases e)
  case (JObj d)
  show ?thesis
  proof (cases "map_of d ''rel''")
    case None
    then show ?thesis
      by (simp add: JObj keep_edge_def py_get_def in_rels_def rel_label_def)
  next
    case (Some r)
    show ?thesis
    proof (cases r)
      case r: (JObj rd)
      show ?thesis
      proof (cases "map_of rd ''label''")
        case None
        then show ?thesis
          by (simp add: JObj Some r keep_edge_def py_get_def in_rels_def rel_label_def)
      next
        case l: (Some lab)
        show ?thesis
          using weight_object [of py d]
          by (cases lab)
             (auto simp: JObj Some r l keep_edge_def py_get_def in_rels_def rel_label_def
                split: bool.splits)
      qed
    qed (simp_all add: JObj Some keep_edge_def py_get_def rel_label_def)
  qed
qed (simp_all add: keep_edge_def py_get_def rel_label_def)



subsection \<open>Float comparisons\<close>

lemma f_gt_not_NaN: "f_gt a b \<Longrightarrow> a \<noteq> NaN \<and> b \<noteq> NaN"
  by (cases a; cases b) (simp_all add: f_gt_def)

lemma f_ge_not_NaN: "f_ge a b \<Longrightarrow> a \<noteq> NaN \<and> b \<noteq> NaN"
  by (cases a; cases b) (simp_all add: f_ge_def)

lemma f_ge_refl: "a \<noteq> NaN \<Longrightarrow> f_ge a a"
  by (simp add: f_ge_def)

lemma f_lt_imp_f_ge: "f_lt b a \<Longrightarrow> f_ge a b"
  by (simp add: f_ge_def)

lemma not_f_lt_imp_f_ge: "a \<noteq> NaN \<Longrightarrow> b \<noteq> NaN \<Longrightarrow> \<not> f_lt a b \<Longrightarrow> f_ge a b"
  by (cases a; cases b) (auto simp: f_ge_def)

lemma f_ge_trans: "f_ge a b \<Longrightarrow> f_ge b c \<Longrightarrow> f_ge a c"
  by (cases a; cases b; cases c) (auto simp: f_ge_def)

lemma f_gt_trans: "f_gt a b \<Longrightarrow> f_gt b c \<Longrightarrow> f_gt a c"
  by (cases a; cases b; cases c) (auto simp: f_gt_def)

subsection \<open>Ranking\<close>

lemma set_insert_desc: "set (insert_desc x ys) = insert x (set ys)"
  by (induction ys) auto

lemma length_insert_desc: "length (insert_desc x ys) = Suc (length ys)"
  by (induction ys) auto

lemma set_sorted_desc: "set (sorted_desc xs) = set xs"
  by (induction xs) (simp_all add: sorted_desc_def set_insert_desc)

lemma length_sorted_desc: "length (sorted_desc xs) = length xs"
  by (induction xs) (simp_all add: sorted_desc_def length_insert_desc)

lemma distinct_insert_desc:
  "distinct (map fst (insert_desc x ys)) \<longleftrightarrow> fst x \<notin> fst ` set ys \<and> distinct (map fst ys)"
  by (induction ys) (auto simp: set_insert_desc)

lemma distinct_sorted_desc: "distinct (map fst (sorted_desc xs)) \<longleftrightarrow> distinct (map fst xs)"
  by (induction xs)
     (simp_all add: sorted_desc_def distinct_insert_desc
        set_sorted_desc [unfolded sorted_desc_def])

lemma sorted_insert_desc:
  assumes "sorted_wrt (\<lambda>a b. f_ge (snd a) (snd b)) ys"
    and "snd x \<noteq> NaN" and "\<forall>y\<in>set ys. snd y \<noteq> NaN"
  shows "sorted_wrt (\<lambda>a b. f_ge (snd a) (snd b)) (insert_desc x ys)"
  using assms
proof (induction ys)
  case Nil
  show ?case by simp
next
  case (Cons y ys)
  show ?case
  proof (cases "f_lt (snd x) (snd y)")
    case True
    then have "f_ge (snd y) (snd x)" by (rule f_lt_imp_f_ge)
    with True Cons show ?thesis by (auto simp: set_insert_desc)
  next
    case False
    then have xy: "f_ge (snd x) (snd y)"
      using Cons.prems by (intro not_f_lt_imp_f_ge) simp_all
    have "\<forall>z\<in>set ys. f_ge (snd x) (snd z)"
      using Cons.prems(1) xy by (auto intro: f_ge_trans)
    with False xy Cons.prems(1) show ?thesis by simp
  qed
qed

lemma sorted_sorted_desc:
  "\<forall>y\<in>set xs. snd y \<noteq> NaN \<Longrightarrow> sorted_wrt (\<lambda>a b. f_ge (snd a) (snd b)) (sorted_desc xs)"
proof (induction xs)
  case Nil
  show ?case by (simp add: sorted_desc_def)
next
  case (Cons x xs)
  then have "sorted_wrt (\<lambda>a b. f_ge (snd a) (snd b)) (insert_desc x (sorted_desc xs))"
    by (intro sorted_insert_desc) (simp_all add: set_sorted_desc)
  then show ?case by (simp add: sorted_desc_def)
qed

lemma py_slice_to_take: "\<exists>n. py_slice_to m xs = take n xs"
  by (auto simp: py_slice_to_def)

lemma length_py_slice_to:
  "length (py_slice_to m xs) =
     (if 0 \<le> m then min (nat m) (length xs) else length xs - nat (- m))"
  by (auto simp: py_slice_to_def)

lemma set_py_slice_to: "set (py_slice_to m xs) \<subseteq> set xs"
  using py_slice_to_take [of m xs] by (auto dest: in_set_takeD)

lemma render_all_nth:
  "render_all r = Inr ss \<Longrightarrow>
     length ss = length r \<and> (\<forall>i<length r. render_fact (r ! i) = Inr (ss ! i))"
proof (induction r arbitrary: ss rule: render_all.induct)
  case 1
  then show ?case by simp
next
  case (2 s r ob w rest)
  from "2.prems" obtain sent sents where
    a: "edge_to_sentence s r ob = Inr sent" and b: "render_all rest = Inr sents"
    and c: "ss = sent # sents"
    by (auto split: sum.splits)
  from "2.IH" [OF a b] have
    "length sents = length rest \<and> (\<forall>i<length rest. render_fact (rest ! i) = Inr (sents ! i))" .
  with a c show ?case
    by (auto simp: render_fact_def nth_Cons split: nat.splits)
qed

lemma output_ranked:
  assumes "get_conceptnet_facts_for_image py http objects cfg = Inr ss"
  shows "\<exists>best. collect_best py http objects cfg = Inr best \<and>
           ranked_facts py http objects cfg
             = Inr (py_slice_to (max_facts cfg) (sorted_desc best)) \<and>
           render_all (py_slice_to (max_facts cfg) (sorted_desc best)) = Inr ss"
  using assms
  by (auto simp: get_conceptnet_facts_for_image_def ranked_facts_def split: sum.splits)

text \<open>
  C4, as the claim states it, fails for a negative \<open>max_facts\<close>: the slice
  \<open>[:max_facts]\<close> then drops facts from the end. With two facts and \<open>max_facts = -1\<close>
  the function returns one sentence, and no list has at most \<open>-1\<close> elements.
\<close>

theorem max_facts_negative_counterexample:
  "get_conceptnet_facts_for_image example_builtins two_facts_remote [''dog'']
     (default_config\<lparr>max_facts := - 1\<rparr>) = Inr [''A dog is an animal.''] \<and>
   \<not> int (length [''A dog is an animal.'']) \<le> max_facts (default_config\<lparr>max_facts := - 1\<rparr>)"
proof -
  have "get_conceptnet_facts_for_image example_builtins two_facts_remote [''dog'']
     (default_config\<lparr>max_facts := - 1\<rparr>) = Inr [''A dog is an animal.'']"
    by code_simp
  then show ?thesis by simp
qed

text \<open>
  C4, amended. For every input object list, every configuration whose \<open>max_facts\<close> is
  not negative and every set of remote responses, the sentence list returned has length
  at most \<open>max_facts\<close>: it has one sentence for each of the first \<open>max_facts\<close> ranked
  facts. (With a negative \<open>max_facts\<close> the last \<open>-max_facts\<close> ranked facts are left
  out.)
\<close>

theorem max_facts_bound:
  assumes "get_conceptnet_facts_for_image py http objects cfg = Inr ss"
  shows "(0 \<le> max_facts cfg \<longrightarrow> int (length ss) \<le> max_facts cfg) \<and>
         (\<exists>best. collect_best py http objects cfg = Inr best \<and>
            length ss = (if 0 \<le> max_facts cfg then min (nat (max_facts cfg)) (length best)
                         else length best - nat (- max_facts cfg)))"
proof -
  from output_ranked [OF assms] obtain best where
    b: "collect_best py http objects cfg = Inr best" and
    r: "render_all (py_slice_to (max_facts cfg) (sorted_desc best)) = Inr ss"
    by blast
  from render_all_nth [OF r] have
    "length ss = length (py_slice_to (max_facts cfg) (sorted_desc best))" by simp
  then have len: "length ss = (if 0 \<le> max_facts cfg then min (nat (max_facts cfg)) (length best)
                         else length best - nat (- max_facts cfg))"
    by (simp add: length_py_slice_to length_sorted_desc)
  then have "0 \<le> max_facts cfg \<longrightarrow> int (length ss) \<le> max_facts cfg" by auto
  with b len show ?thesis by blast
qed

theorem max_facts_bound_witness:
  "int (length [''A dog is an animal.'']) \<le> 1 \<and>
   (\<exists>best. collect_best example_builtins two_facts_remote [''dog'']
             (default_config\<lparr>max_facts := 1\<rparr>) = Inr best \<and> length best = 2)"
proof -
  have run: "get_conceptnet_facts_for_image example_builtins two_facts_remote [''dog'']
     (default_config\<lparr>max_facts := 1\<rparr>) = Inr [''A dog is an animal.'']"
    by code_simp
  have "collect_best example_builtins two_facts_remote [''dog'']
             (default_config\<lparr>max_facts := 1\<rparr>)
          = Inr [((''dog'', ''AtLocation'', ''park''), Fin 3.2),
                 ((''dog'', ''IsA'', ''animal''), Fin 5)]"
    by code_simp
  with max_facts_bound [OF run] show ?thesis by simp
qed

subsection \<open>Deduplication\<close>

lemma f_gt_f_ge_trans: "f_gt a b \<Longrightarrow> f_ge b c \<Longrightarrow> f_ge a c"
  by (cases a; cases b; cases c) (auto simp: f_gt_def f_ge_def)

lemma f_gt_above: "f_gt a c \<Longrightarrow> \<not> f_gt b c \<Longrightarrow> b \<noteq> NaN \<Longrightarrow> f_ge a b"
  by (cases a; cases b; cases c) (auto simp: f_gt_def f_ge_def)

lemma not_f_gt_imp_f_ge: "a \<noteq> NaN \<Longrightarrow> b \<noteq> NaN \<Longrightarrow> \<not> f_gt a b \<Longrightarrow> f_ge b a"
  by (cases a; cases b) (auto simp: f_gt_def f_ge_def)

lemma kept_weight_not_NaN: "keep_edge py rels mw e = Inr True \<Longrightarrow> edge_weight py e \<noteq> NaN"
  by (auto simp: keep_edge_True_iff dest: f_ge_not_NaN)

lemma update_fresh: "map_of al k = None \<Longrightarrow> AList.update k v al = al @ [(k, v)]"
  by (induction al) (auto split: if_splits)

lemma add_edge_fact_kept:
  assumes "keep_edge py rels mw e = Inr True"
  shows "add_edge_fact py e best = Inr (absorb py e best)"
proof -
  from assms obtain l where l: "rel_label e = Some l"
    by (auto simp: keep_edge_True_iff)
  then obtain d where e: "e = JObj d"
    by (cases e) (simp_all add: rel_label_def)
  from l obtain r where r: "map_of d ''rel'' = Some (JObj r)"
    and lab: "map_of r ''label'' = Some (JStr l)"
    by (auto simp: e rel_label_def split: option.splits json.splits)
  show ?thesis
    using l weight_object [of py d]
    by (simp add: add_edge_fact_def absorb_def fact_key_def py_get_def e r lab py_truthy_def
        Let_def split: option.splits)
qed

lemma key_inv_other:
  assumes "key_inv py seen k v" and "fact_key py e \<noteq> Some k"
  shows "key_inv py (seen @ [e]) k v"
  using assms by (cases v) (auto simp: key_inv_def)

lemma key_inv_raise:
  assumes inv: "key_inv py seen k v"
    and key: "fact_key py e = Some k"
    and gt: "f_gt (edge_weight py e) (case v of Some b \<Rightarrow> b | None \<Rightarrow> Fin (- 1))"
    and seen: "\<forall>x\<in>set seen. edge_weight py x \<noteq> NaN"
  shows "key_inv py (seen @ [e]) k (Some (edge_weight py e))"
proof (cases v)
  case None
  with gt have g: "f_gt (edge_weight py e) (Fin (- 1))" by simp
  have "\<forall>x\<in>set seen. fact_key py x = Some k \<longrightarrow> f_ge (edge_weight py e) (edge_weight py x)"
    using inv seen None g by (auto simp: key_inv_def intro: f_gt_above)
  with g key show ?thesis
    using f_gt_not_NaN [OF g] by (auto simp: key_inv_def f_ge_refl)
next
  case (Some w)
  with gt have g: "f_gt (edge_weight py e) w" by simp
  from inv Some have w: "f_gt w (Fin (- 1))" by (simp add: key_inv_def)
  have "\<forall>x\<in>set seen. fact_key py x = Some k \<longrightarrow> f_ge (edge_weight py e) (edge_weight py x)"
    using inv Some g by (auto simp: key_inv_def intro: f_gt_f_ge_trans)
  with key f_gt_trans [OF g w] show ?thesis
    using f_gt_not_NaN [OF g] by (auto simp: key_inv_def f_ge_refl)
qed

lemma key_inv_keep:
  assumes inv: "key_inv py seen k v"
    and key: "fact_key py e = Some k"
    and ngt: "\<not> f_gt (edge_weight py e) (case v of Some b \<Rightarrow> b | None \<Rightarrow> Fin (- 1))"
    and e: "edge_weight py e \<noteq> NaN"
  shows "key_inv py (seen @ [e]) k v"
proof (cases v)
  case None
  with inv ngt show ?thesis by (auto simp: key_inv_def)
next
  case (Some w)
  from inv Some have w: "f_gt w (Fin (- 1))" by (simp add: key_inv_def)
  have "f_ge w (edge_weight py e)"
    using ngt Some e f_gt_not_NaN [OF w] by (intro not_f_gt_imp_f_ge) simp_all
  with inv Some show ?thesis by (auto simp: key_inv_def)
qed

lemma tracks_absorb:
  assumes t: "tracks py rels mw seen best" and k: "keep_edge py rels mw e = Inr True"
  shows "tracks py rels mw (seen @ [e]) (absorb py e best)"
proof -
  have seen: "\<forall>x\<in>set seen. edge_weight py x \<noteq> NaN"
    using t kept_weight_not_NaN [of py rels mw] by (simp add: tracks_def)
  have e: "edge_weight py e \<noteq> NaN" using k by (rule kept_weight_not_NaN)
  have inv: "key_inv py seen k' (map_of best k')" for k'
    using t unfolding tracks_def by blast
  have kept: "\<forall>x\<in>set (seen @ [e]). keep_edge py rels mw x = Inr True"
    using t k by (simp add: tracks_def)
  have d: "distinct (map fst best)" using t by (simp add: tracks_def)
  show ?thesis
  proof (cases "fact_key py e")
    case None
    then have "key_inv py (seen @ [e]) k' (map_of best k')" for k'
      using key_inv_other [OF inv, of e k'] by simp
    with kept d None show ?thesis unfolding tracks_def absorb_def by simp
  next
    case (Some k0)
    show ?thesis
    proof (cases "f_gt (edge_weight py e)
                    (case map_of best k0 of Some b \<Rightarrow> b | None \<Rightarrow> Fin (- 1))")
      case True
      have "key_inv py (seen @ [e]) k'
              (map_of (AList.update k0 (edge_weight py e) best) k')" for k'
      proof (cases "k' = k0")
        case True
        with key_inv_raise [OF inv Some \<open>f_gt _ _\<close> seen] show ?thesis
          by (simp add: update_conv')
      next
        case False
        with key_inv_other [OF inv, of e k'] Some show ?thesis
          by (simp add: update_conv')
      qed
      with kept d Some True show ?thesis
        unfolding tracks_def absorb_def by (simp add: distinct_update)
    next
      case False
      have "key_inv py (seen @ [e]) k' (map_of best k')" for k'
      proof (cases "k' = k0")
        case True
        with key_inv_keep [OF inv Some False e] show ?thesis by simp
      next
        case neq: False
        with key_inv_other [OF inv, of e k'] Some show ?thesis by simp
      qed
      with kept d Some False show ?thesis unfolding tracks_def absorb_def by simp
    qed
  qed
qed

lemma scan_edges_tracks:
  assumes "scan_edges py rels mw es best = Inr best'" and "tracks py rels mw seen best"
  shows "tracks py rels mw
           (seen @ filter (\<lambda>e. keep_edge py rels mw e = Inr True) es) best'"
  using assms
proof (induction es arbitrary: best seen)
  case Nil
  then show ?case by simp
next
  case (Cons e es)
  show ?case
  proof (cases "keep_edge py rels mw e")
    case (Inl err)
    with Cons.prems show ?thesis by simp
  next
    case (Inr b)
    show ?thesis
    proof (cases b)
      case False
      with Inr Cons show ?thesis by simp
    next
      case True
      with Inr have k: "keep_edge py rels mw e = Inr True" by simp
      with Cons.prems(1) have "scan_edges py rels mw es (absorb py e best) = Inr best'"
        by (simp add: add_edge_fact_kept [OF k])
      from Cons.IH [OF this tracks_absorb [OF Cons.prems(2) k]] k
      show ?thesis by simp
    qed
  qed
qed

lemma per_object_edges_tracks:
  assumes "per_object_edges py http rels mw limit objs best = Inr best'"
    and "tracks py rels mw seen best"
  shows "tracks py rels mw
           (seen @ filter (\<lambda>e. keep_edge py rels mw e = Inr True)
                     (concat (map (\<lambda>obj. response_edges http (object_url limit obj)) objs)))
           best'"
  using assms
proof (induction objs arbitrary: best seen)
  case Nil
  then show ?case by simp
next
  case (Cons obj objs)
  from Cons.prems(1) obtain data es b1 where
    g: "get_json http (CONCEPTNET_API @ to_en_uri obj @ ''?limit='' @ str_int limit) = Inr data"
    and e: "edges_of data = Inr es"
    and s: "scan_edges py rels mw es best = Inr b1"
    and r: "per_object_edges py http rels mw limit objs b1 = Inr best'"
    by (auto simp: Let_def split: option.splits sum.splits)
  have "response_edges http (object_url limit obj) = es"
    using g e by (simp add: response_edges_def object_url_def)
  with Cons.IH [OF r scan_edges_tracks [OF s Cons.prems(2)]] show ?case by simp
qed

lemma pair_edges_tracks:
  assumes "pair_edges py http rels mw limit ps best = Inr best'"
    and "tracks py rels mw seen best"
  shows "tracks py rels mw
           (seen @ filter (\<lambda>e. keep_edge py rels mw e = Inr True)
                     (concat (map (\<lambda>p. response_edges http (pair_url limit p)) ps)))
           best'"
  using assms
proof (induction ps arbitrary: best seen)
  case Nil
  then show ?case by simp
next
  case (Cons p ps)
  obtain a b where p: "p = (a, b)" by (cases p)
  from Cons.prems(1) obtain data es b1 where
    g: "get_json http (CONCEPTNET_API @ ''/query?node='' @ to_en_uri a @ ''&other=''
          @ to_en_uri b @ ''&limit='' @ str_int limit) = Inr data"
    and e: "edges_of data = Inr es"
    and s: "scan_edges py rels mw es best = Inr b1"
    and r: "pair_edges py http rels mw limit ps b1 = Inr best'"
    by (auto simp: p Let_def split: sum.splits)
  have "response_edges http (pair_url limit p) = es"
    using g e by (simp add: response_edges_def pair_url_def p)
  with Cons.IH [OF r scan_edges_tracks [OF s Cons.prems(2)]] show ?case by simp
qed

lemma tracks_empty: "tracks py rels mw [] []"
  by (simp add: tracks_def key_inv_def)

lemma collect_best_tracks:
  assumes "collect_best py http objects cfg = Inr best"
  shows "tracks py (rels_of (relations cfg)) (min_weight cfg)
           (filtered_edges py http objects cfg) best"
proof -
  define objs where "objs = dedup_objects objects {} []"
  from assms obtain b1 where
    p1: "per_object_edges py http (rels_of (relations cfg)) (min_weight cfg)
           (per_object_limit cfg) objs [] = Inr b1"
    and p2: "pair_edges py http (rels_of (relations cfg)) (min_weight cfg) (pair_limit cfg)
           (combinations2 objs) b1 = Inr best"
    by (auto simp: collect_best_def Let_def objs_def split: sum.splits)
  from pair_edges_tracks [OF p2 per_object_edges_tracks [OF p1 tracks_empty]]
  show ?thesis
    by (simp add: filtered_edges_def fetched_edges_def Let_def objs_def)
qed

lemma tracks_entry:
  assumes "tracks py rels mw seen best" and "(k, w) \<in> set best"
  shows "key_inv py seen k (Some w)"
proof -
  have "distinct (map fst best)" using assms(1) unfolding tracks_def by blast
  with assms(2) have "map_of best k = Some w" by simp
  moreover have "key_inv py seen k (map_of best k)"
    using assms(1) unfolding tracks_def by blast
  ultimately show ?thesis by simp
qed

lemma f_ge_f_gt_trans: "f_ge a b \<Longrightarrow> f_gt b c \<Longrightarrow> f_gt a c"
  by (cases a; cases b; cases c) (auto simp: f_gt_def f_ge_def)

lemma f_ge_zero_above: "f_ge a (Fin 0) \<Longrightarrow> f_gt a (Fin (- 1))"
  by (cases a) (auto simp: f_gt_def f_ge_def)

text \<open>
  C3 fails on the code. Line 127 compares the weight of an edge with \<open>-1.0\<close> when its
  key has no entry, so a filtered edge whose weight is not above \<open>-1.0\<close> creates no
  entry, against the comment of line 116 ("keep the max weight we saw"). With
  \<open>min_weight = -5\<close> the edge (dog, IsA, animal) of weight \<open>-2\<close> passes the filter,
  its key has no entry, and \<open>best\<close> stays empty: the function returns no fact for the
  key, where the claim has one fact of weight \<open>-2\<close>.
\<close>

theorem negative_weight_edge_lost:
  "keep_edge example_builtins DEFAULT_RELATIONS (Fin (- 5))
     (mk_edge ''dog'' ''IsA'' ''animal'' (Fin (- 2))) = Inr True \<and>
   fact_key example_builtins (mk_edge ''dog'' ''IsA'' ''animal'' (Fin (- 2)))
     = Some (''dog'', ''IsA'', ''animal'') \<and>
   add_edge_fact example_builtins (mk_edge ''dog'' ''IsA'' ''animal'' (Fin (- 2))) [] = Inr [] \<and>
   ranked_facts example_builtins negative_remote [''dog'']
     (default_config\<lparr>min_weight := Fin (- 5)\<rparr>) = Inr [] \<and>
   get_conceptnet_facts_for_image example_builtins negative_remote [''dog'']
     (default_config\<lparr>min_weight := Fin (- 5)\<rparr>) = Inr []"
  by code_simp

text \<open>
  What the loops do keep. For every run of the top-level function that returns, the
  ranked facts behind the output hold no key twice, and the weight that ranks a key is
  the greatest weight of the filtered edges with that key, over both fetch phases: some
  such edge has it and none has more. Where weights are not negative, or \<open>min_weight\<close>
  is above \<open>-1.0\<close> as the default is, every incoming filtered edge whose key has no
  entry yet creates an entry holding its weight. Two filtered edges (dog, IsA, animal)
  of weights 2.0 and 5.0 yield exactly one fact, of weight 5.0.
\<close>

theorem best_weight_per_key:
  "(get_conceptnet_facts_for_image py http objects cfg = Inr ss \<longrightarrow>
      (\<exists>ranked. ranked_facts py http objects cfg = Inr ranked \<and>
         render_all ranked = Inr ss \<and>
         distinct (map fst ranked) \<and>
         (\<forall>(k, w)\<in>set ranked.
            (\<exists>e\<in>set (filtered_edges py http objects cfg).
               fact_key py e = Some k \<and> edge_weight py e = w) \<and>
            (\<forall>e\<in>set (filtered_edges py http objects cfg).
               fact_key py e = Some k \<longrightarrow> f_ge w (edge_weight py e))))) \<and>
   (keep_edge py rels mw e = Inr True \<and> fact_key py e = Some k \<and> map_of best k = None \<and>
    (f_ge (edge_weight py e) (Fin 0) \<or> f_gt mw (Fin (- 1)))
      \<longrightarrow> add_edge_fact py e best = Inr (best @ [(k, edge_weight py e)])) \<and>
   ranked_facts example_builtins dedup_remote [''dog''] default_config
     = Inr [((''dog'', ''IsA'', ''animal''), Fin 5)]"
proof (intro conjI impI)
  assume run: "get_conceptnet_facts_for_image py http objects cfg = Inr ss"
  from output_ranked [OF run] obtain best0 where
    b: "collect_best py http objects cfg = Inr best0" and
    rk: "ranked_facts py http objects cfg
           = Inr (py_slice_to (max_facts cfg) (sorted_desc best0))" and
    r: "render_all (py_slice_to (max_facts cfg) (sorted_desc best0)) = Inr ss"
    by blast
  let ?ranked = "py_slice_to (max_facts cfg) (sorted_desc best0)"
  note t = collect_best_tracks [OF b]
  have sub: "set ?ranked \<subseteq> set best0"
    using set_py_slice_to [of "max_facts cfg" "sorted_desc best0"]
    by (simp add: set_sorted_desc)
  have "distinct (map fst best0)" using t unfolding tracks_def by blast
  then have "distinct (map fst (sorted_desc best0))" by (simp add: distinct_sorted_desc)
  then have d: "distinct (map fst ?ranked)"
    using py_slice_to_take [of "max_facts cfg" "sorted_desc best0"]
    by (auto simp: take_map [symmetric])
  have "\<forall>(k, w)\<in>set ?ranked.
          (\<exists>e\<in>set (filtered_edges py http objects cfg).
             fact_key py e = Some k \<and> edge_weight py e = w) \<and>
          (\<forall>e\<in>set (filtered_edges py http objects cfg).
             fact_key py e = Some k \<longrightarrow> f_ge w (edge_weight py e))"
  proof (clarify, goal_cases)
    case (1 a b c w)
    then have "((a, b, c), w) \<in> set best0" using sub by blast
    from tracks_entry [OF t this] show ?case by (simp add: key_inv_def)
  qed
  with rk r d show "\<exists>ranked. ranked_facts py http objects cfg = Inr ranked \<and>
         render_all ranked = Inr ss \<and>
         distinct (map fst ranked) \<and>
         (\<forall>(k, w)\<in>set ranked.
            (\<exists>e\<in>set (filtered_edges py http objects cfg).
               fact_key py e = Some k \<and> edge_weight py e = w) \<and>
            (\<forall>e\<in>set (filtered_edges py http objects cfg).
               fact_key py e = Some k \<longrightarrow> f_ge w (edge_weight py e)))"
    by blast
next
  assume a: "keep_edge py rels mw e = Inr True \<and> fact_key py e = Some k \<and>
    map_of best k = None \<and> (f_ge (edge_weight py e) (Fin 0) \<or> f_gt mw (Fin (- 1)))"
  then have "f_ge (edge_weight py e) mw" by (simp add: keep_edge_True_iff)
  with a have "f_gt (edge_weight py e) (Fin (- 1))"
    by (auto intro: f_ge_zero_above f_ge_f_gt_trans)
  with a show "add_edge_fact py e best = Inr (best @ [(k, edge_weight py e)])"
    by (simp add: add_edge_fact_kept [of py rels mw e] absorb_def update_fresh)
next
  show "ranked_facts example_builtins dedup_remote [''dog''] default_config
     = Inr [((''dog'', ''IsA'', ''animal''), Fin 5)]"
    by code_simp
qed

theorem best_weight_per_key_witness:
  "(\<exists>ranked. ranked_facts example_builtins dedup_remote [''dog''] default_config = Inr ranked \<and>
      render_all ranked = Inr [''A dog is an animal.''] \<and> distinct (map fst ranked)) \<and>
   add_edge_fact example_builtins (mk_edge ''dog'' ''IsA'' ''animal'' (Fin 2)) []
     = Inr [((''dog'', ''IsA'', ''animal''), Fin 2)]"
proof -
  let ?e = "mk_edge ''dog'' ''IsA'' ''animal'' (Fin 2)"
  have run: "get_conceptnet_facts_for_image example_builtins dedup_remote [''dog'']
               default_config = Inr [''A dog is an animal.'']"
    by code_simp
  have h: "keep_edge example_builtins DEFAULT_RELATIONS (Fin 1) ?e = Inr True \<and>
           fact_key example_builtins ?e = Some (''dog'', ''IsA'', ''animal'') \<and>
           map_of ([] :: best) (''dog'', ''IsA'', ''animal'') = None \<and>
           f_ge (edge_weight example_builtins ?e) (Fin 0)"
    by code_simp
  have w: "edge_weight example_builtins ?e = Fin 2" by code_simp
  note inst = best_weight_per_key [of example_builtins dedup_remote "[''dog'']" default_config
      "[''A dog is an animal.'']" DEFAULT_RELATIONS "Fin 1" ?e
      "(''dog'', ''IsA'', ''animal'')" "[]"]
  from inst run have "\<exists>ranked. ranked_facts example_builtins dedup_remote [''dog'']
      default_config = Inr ranked \<and>
      render_all ranked = Inr [''A dog is an animal.''] \<and> distinct (map fst ranked)"
    by blast
  moreover from inst h w have "add_edge_fact example_builtins ?e []
     = Inr [((''dog'', ''IsA'', ''animal''), Fin 2)]"
    by simp
  ultimately show ?thesis by blast
qed

subsection \<open>Order of the output\<close>

text \<open>
  C5. For every run of the top-level function that returns, the sentences are the
  renderings, in order, of the ranked facts, whose weights are the winning weights of
  their keys in \<open>best\<close>, and the weights do not increase along the list: the weight
  behind a sentence is greater than or equal to the weight behind every later one.
\<close>

theorem output_sorted_by_weight:
  assumes "get_conceptnet_facts_for_image py http objects cfg = Inr ss"
  shows "\<exists>best ranked.
           collect_best py http objects cfg = Inr best \<and>
           ranked_facts py http objects cfg = Inr ranked \<and>
           set ranked \<subseteq> set best \<and>
           length ss = length ranked \<and>
           (\<forall>i<length ranked. render_fact (ranked ! i) = Inr (ss ! i)) \<and>
           (\<forall>i j. i < j \<and> j < length ranked
                    \<longrightarrow> f_ge (snd (ranked ! i)) (snd (ranked ! j)))"
proof -
  from output_ranked [OF assms] obtain best where
    b: "collect_best py http objects cfg = Inr best" and
    rk: "ranked_facts py http objects cfg
           = Inr (py_slice_to (max_facts cfg) (sorted_desc best))" and
    r: "render_all (py_slice_to (max_facts cfg) (sorted_desc best)) = Inr ss"
    by blast
  let ?ranked = "py_slice_to (max_facts cfg) (sorted_desc best)"
  note t = collect_best_tracks [OF b]
  have sub: "set ?ranked \<subseteq> set best"
    using set_py_slice_to [of "max_facts cfg" "sorted_desc best"]
    by (simp add: set_sorted_desc)
  have "\<forall>y\<in>set best. snd y \<noteq> NaN"
  proof
    fix y assume "y \<in> set best"
    then have "(fst y, snd y) \<in> set best" by simp
    from tracks_entry [OF t this] have "f_gt (snd y) (Fin (- 1))"
      by (simp add: key_inv_def)
    then show "snd y \<noteq> NaN" by (simp add: f_gt_not_NaN)
  qed
  then have "sorted_wrt (\<lambda>a b. f_ge (snd a) (snd b)) (sorted_desc best)"
    by (rule sorted_sorted_desc)
  then have "sorted_wrt (\<lambda>a b. f_ge (snd a) (snd b)) ?ranked"
    using py_slice_to_take [of "max_facts cfg" "sorted_desc best"]
    by (auto simp: sorted_wrt_take)
  then have ord: "\<forall>i j. i < j \<and> j < length ?ranked
                    \<longrightarrow> f_ge (snd (?ranked ! i)) (snd (?ranked ! j))"
    by (simp add: sorted_wrt_iff_nth_less)
  from render_all_nth [OF r] b rk sub ord show ?thesis by blast
qed

theorem output_sorted_by_weight_witness:
  "\<exists>best ranked.
     collect_best example_builtins two_facts_remote [''dog''] default_config = Inr best \<and>
     ranked_facts example_builtins two_facts_remote [''dog''] default_config = Inr ranked \<and>
     length [''A dog is an animal.'', ''A dog is often found in a park.''] = length ranked \<and>
     best = [((''dog'', ''AtLocation'', ''park''), Fin 3.2), ((''dog'', ''IsA'', ''animal''), Fin 5)]"
proof -
  have run: "get_conceptnet_facts_for_image example_builtins two_facts_remote [''dog'']
               default_config
             = Inr [''A dog is an animal.'', ''A dog is often found in a park.'']"
    by code_simp
  have "collect_best example_builtins two_facts_remote [''dog''] default_config
          = Inr [((''dog'', ''AtLocation'', ''park''), Fin 3.2),
                 ((''dog'', ''IsA'', ''animal''), Fin 5)]"
    by code_simp
  with output_sorted_by_weight [OF run] show ?thesis by auto
qed

end
